theory Spec2Isabelle
  imports Main "HOL-Library.Word"
begin

section \<open>The contract SolarEnergyTradingFHE\<close>

text \<open>
  A shallow embedding of \<^verbatim>\<open>src/contracts/SolarEnergyTradingFHE.sol\<close>. The contract's
  storage is a record, every public function takes the storage and returns either an
  error (the transaction reverts, the storage stays as it was) or the new storage.
  A Solidity \<^verbatim>\<open>mapping\<close> is a total function: a key never written reads as the
  zero value of its type. \<^verbatim>\<open>uint256\<close> is \<open>256 word\<close>; Solidity 0.8 checks
  \<^verbatim>\<open>+=\<close> and reverts on overflow.
\<close>

subsection \<open>The encryption library\<close>

type_synonym uint256 = "256 word"

type_synonym bytes = "8 word list"

text \<open>
  Modelled from the spec: the type \<^verbatim>\<open>euint32\<close> and the functions \<^verbatim>\<open>FHE.isInitialized\<close>,
  \<^verbatim>\<open>FHE.asEuint32\<close> and \<^verbatim>\<open>FHE.add\<close> of the imported library \<^verbatim>\<open>@fhevm/solidity\<close>, which is
  not part of the sources. A handle is either the zero handle of a storage slot never
  written, or an encryption of a 32-bit value; the model keeps the encrypted value with
  the handle. Addition is homomorphic on 32 bits and reads a zero handle as an encryption
  of zero.
\<close>

datatype euint32 = Uninitialized | Handle "32 word"

fun FHE_isInitialized :: "euint32 \<Rightarrow> bool" where
  "FHE_isInitialized Uninitialized = False"
| "FHE_isInitialized (Handle v) = True"

definition FHE_asEuint32 :: "32 word \<Rightarrow> euint32" where
  "FHE_asEuint32 v = Handle v"

fun FHE_cleartext :: "euint32 \<Rightarrow> 32 word" where
  "FHE_cleartext Uninitialized = 0"
| "FHE_cleartext (Handle v) = v"

definition FHE_add :: "euint32 \<Rightarrow> euint32 \<Rightarrow> euint32" where
  "FHE_add a b = Handle (FHE_cleartext a + FHE_cleartext b)"

text \<open>
  Modelled from the spec: what the contract leaves to its environment. \<open>isAllowed\<close> is
  the answer of the library's access-control list to whether this contract may use a
  handle; the contract itself never grants anything, so the answer is up to the
  submitters. \<open>checkSignatures\<close> is \<^verbatim>\<open>FHE.checkSignatures\<close>, which reverts unless the
  proof binds the cleartexts to the request (\<open>True\<close>: it returns). \<open>abi_decode\<close> is the
  compiler's \<^verbatim>\<open>abi.decode(cleartexts, (string[]))\<close>, \<open>None\<close> where it reverts on a
  malformed payload.
\<close>

record env =
  isAllowed :: "euint32 \<Rightarrow> bool"
  checkSignatures :: "uint256 \<Rightarrow> bytes \<Rightarrow> bytes \<Rightarrow> bool"
  abi_decode :: "bytes \<Rightarrow> string list option"

datatype error =
    AlreadySettled
  | InvalidRequest
  | ProofInvalid
  | SenderNotAllowed
  | DecodeError
  | Panic_IndexOutOfBounds
  | Panic_Overflow

text \<open>
  Modelled from the spec: \<^verbatim>\<open>FHE.requestDecryption\<close> of the same library. It reverts with
  \<open>SenderNotAllowed\<close> unless the access-control list allows the contract on every handle
  of the batch, which it never does on the zero handle. Otherwise the token is the
  library's request counter, which lives in the contract's storage and is incremented by
  a checked \<^verbatim>\<open>++\<close>: no token is handed out twice. The result is the token and the new
  counter.
\<close>

definition FHE_senderAllowed :: "env \<Rightarrow> euint32 \<Rightarrow> bool" where
  "FHE_senderAllowed e h \<longleftrightarrow> FHE_isInitialized h \<and> isAllowed e h"

definition FHE_requestDecryption :: "env \<Rightarrow> uint256 \<Rightarrow> euint32 list \<Rightarrow> error + uint256 \<times> uint256" where
  "FHE_requestDecryption e counterRequest ciphertexts =
     (if \<not> list_all (FHE_senderAllowed e) ciphertexts then Inl SenderNotAllowed
      else if counterRequest = - 1 then Inl Panic_Overflow
      else Inr (counterRequest, counterRequest + 1))"

subsection \<open>Storage\<close>

record EncryptedTransaction =
  id_field :: uint256
  encryptedSellerId :: euint32
  encryptedBuyerId :: euint32
  encryptedEnergyAmount :: euint32
  encryptedPrice :: euint32
  timestamp :: uint256

record DecryptedTransaction =
  sellerId :: string
  buyerId :: string
  energyAmount :: string
  price :: string
  isSettled :: bool

datatype event =
    TransactionSubmitted uint256 uint256
  | DecryptionRequested uint256
  | TransactionDecrypted uint256

text \<open>
  The storage of the contract; \<open>counterRequest\<close> is the slot of the library's request
  counter.
\<close>

record contract =
  transactionCount :: uint256
  encryptedTransactions :: "uint256 \<Rightarrow> EncryptedTransaction"
  decryptedTransactions :: "uint256 \<Rightarrow> DecryptedTransaction"
  encryptedEnergyBySeller :: "string \<Rightarrow> euint32"
  sellerList :: "string list"
  requestToTransactionId :: "uint256 \<Rightarrow> uint256"
  counterRequest :: uint256
  events :: "event list"

definition zero_EncryptedTransaction :: EncryptedTransaction where
  "zero_EncryptedTransaction =
     \<lparr>id_field = 0, encryptedSellerId = Uninitialized, encryptedBuyerId = Uninitialized,
      encryptedEnergyAmount = Uninitialized, encryptedPrice = Uninitialized, timestamp = 0\<rparr>"

definition zero_DecryptedTransaction :: DecryptedTransaction where
  "zero_DecryptedTransaction =
     \<lparr>sellerId = [], buyerId = [], energyAmount = [], price = [], isSettled = False\<rparr>"

text \<open>The storage of the freshly deployed contract: every slot is zero.\<close>

definition deployed :: contract where
  "deployed =
     \<lparr>transactionCount = 0,
      encryptedTransactions = (\<lambda>_. zero_EncryptedTransaction),
      decryptedTransactions = (\<lambda>_. zero_DecryptedTransaction),
      encryptedEnergyBySeller = (\<lambda>_. Uninitialized),
      sellerList = [],
      requestToTransactionId = (\<lambda>_. 0),
      counterRequest = 0,
      events = []\<rparr>"

subsection \<open>The public functions\<close>

text \<open>\<^verbatim>\<open>submitEncryptedTransaction\<close>; \<open>now\<close> is \<^verbatim>\<open>block.timestamp\<close>.\<close>

definition submitEncryptedTransaction ::
  "contract \<Rightarrow> euint32 \<Rightarrow> euint32 \<Rightarrow> euint32 \<Rightarrow> euint32 \<Rightarrow> uint256 \<Rightarrow> error + contract" where
  "submitEncryptedTransaction s eSeller eBuyer eAmount ePrice now =
     (if transactionCount s = - 1 then Inl Panic_Overflow
      else
        let newId = transactionCount s + 1 in
        Inr (s\<lparr>transactionCount := newId,
               encryptedTransactions := (encryptedTransactions s)(newId :=
                 \<lparr>id_field = newId, encryptedSellerId = eSeller, encryptedBuyerId = eBuyer,
                  encryptedEnergyAmount = eAmount, encryptedPrice = ePrice, timestamp = now\<rparr>),
               decryptedTransactions := (decryptedTransactions s)(newId :=
                 \<lparr>sellerId = [], buyerId = [], energyAmount = [], price = [],
                  isSettled = False\<rparr>),
               events := events s @ [TransactionSubmitted newId now]\<rparr>))"

text \<open>
  \<^verbatim>\<open>requestTransactionDecryption\<close>; the modifier \<^verbatim>\<open>onlyParticipant\<close> is a placeholder that
  only runs the body. The four handles of the record are handed to
  \<^verbatim>\<open>FHE.requestDecryption\<close>; when it reverts, so does the call, and otherwise its token
  \<open>reqId\<close> is mapped to the identifier.
\<close>

definition requestTransactionDecryption :: "env \<Rightarrow> contract \<Rightarrow> uint256 \<Rightarrow> error + contract" where
  "requestTransactionDecryption e s transactionId =
     (let txn = encryptedTransactions s transactionId in
      if isSettled (decryptedTransactions s transactionId) then Inl AlreadySettled
      else
        let ciphertexts = [encryptedSellerId txn, encryptedBuyerId txn,
                           encryptedEnergyAmount txn, encryptedPrice txn] in
        case FHE_requestDecryption e (counterRequest s) ciphertexts of
          Inl err \<Rightarrow> Inl err
        | Inr (reqId, counter) \<Rightarrow>
            Inr (s\<lparr>counterRequest := counter,
                   requestToTransactionId := (requestToTransactionId s)(reqId := transactionId),
                   events := events s @ [DecryptionRequested transactionId]\<rparr>))"

text \<open>\<^verbatim>\<open>decryptTransaction\<close>, the callback; \<open>prf\<close> is its argument \<^verbatim>\<open>proof\<close>.\<close>

definition decryptTransaction :: "env \<Rightarrow> contract \<Rightarrow> uint256 \<Rightarrow> bytes \<Rightarrow> bytes \<Rightarrow> error + contract" where
  "decryptTransaction e s requestId cleartexts prf =
     (let transactionId = requestToTransactionId s requestId in
      if transactionId = 0 then Inl InvalidRequest
      else if isSettled (decryptedTransactions s transactionId) then Inl AlreadySettled
      else if \<not> checkSignatures e requestId cleartexts prf then Inl ProofInvalid
      else
        case abi_decode e cleartexts of
          None \<Rightarrow> Inl DecodeError
        | Some results \<Rightarrow>
            if length results < 4 then Inl Panic_IndexOutOfBounds
            else
              let dTxn = \<lparr>sellerId = results ! 0, buyerId = results ! 1,
                          energyAmount = results ! 2, price = results ! 3, isSettled = True\<rparr>;
                  seller = sellerId dTxn;
                  known = FHE_isInitialized (encryptedEnergyBySeller s seller);
                  energy = (if known then encryptedEnergyBySeller s
                            else (encryptedEnergyBySeller s)(seller := FHE_asEuint32 0));
                  sellers = (if known then sellerList s else sellerList s @ [seller])
              in
              Inr (s\<lparr>decryptedTransactions := (decryptedTransactions s)(transactionId := dTxn),
                     encryptedEnergyBySeller :=
                       energy(seller := FHE_add (energy seller) (FHE_asEuint32 1)),
                     sellerList := sellers,
                     events := events s @ [TransactionDecrypted transactionId]\<rparr>))"

text \<open>\<^verbatim>\<open>getDecryptedTransaction\<close> and \<^verbatim>\<open>getEncryptedEnergyBySeller\<close>, the views.\<close>

definition getDecryptedTransaction ::
  "contract \<Rightarrow> uint256 \<Rightarrow> string \<times> string \<times> string \<times> string \<times> bool" where
  "getDecryptedTransaction s transactionId =
     (let txn = decryptedTransactions s transactionId in
      (sellerId txn, buyerId txn, energyAmount txn, price txn, isSettled txn))"

definition getEncryptedEnergyBySeller :: "contract \<Rightarrow> string \<Rightarrow> euint32" where
  "getEncryptedEnergyBySeller s seller = encryptedEnergyBySeller s seller"

subsection \<open>Transactions in sequence\<close>

text \<open>
  The ledger runs one call after the other. A call that reverts leaves the storage as it
  was; \<open>outcomes\<close> keeps the error of each call (\<open>None\<close>: the call went through).
\<close>

datatype call =
    Submit euint32 euint32 euint32 euint32 uint256
  | Request uint256
  | Callback uint256 bytes bytes

fun exec :: "env \<Rightarrow> contract \<Rightarrow> call \<Rightarrow> error + contract" where
  "exec e s (Submit eSeller eBuyer eAmount ePrice now) =
     submitEncryptedTransaction s eSeller eBuyer eAmount ePrice now"
| "exec e s (Request transactionId) = requestTransactionDecryption e s transactionId"
| "exec e s (Callback requestId cleartexts prf) = decryptTransaction e s requestId cleartexts prf"

definition step :: "env \<Rightarrow> contract \<Rightarrow> call \<Rightarrow> contract" where
  "step e s c = (case exec e s c of Inl err \<Rightarrow> s | Inr s' \<Rightarrow> s')"

fun run :: "env \<Rightarrow> contract \<Rightarrow> call list \<Rightarrow> contract" where
  "run e s [] = s"
| "run e s (c # cs) = run e (step e s c) cs"

fun outcomes :: "env \<Rightarrow> contract \<Rightarrow> call list \<Rightarrow> error option list" where
  "outcomes e s [] = []"
| "outcomes e s (c # cs) =
     (case exec e s c of Inl err \<Rightarrow> Some err | Inr s' \<Rightarrow> None) # outcomes e (step e s c) cs"

subsection \<open>Observations on a sequence of calls\<close>

text \<open>
  What an observer of the ledger can collect from a sequence of calls: the identifiers in
  the \<^verbatim>\<open>TransactionSubmitted\<close> and \<^verbatim>\<open>TransactionDecrypted\<close> events, the identifier and the
  projection that each successful submission left behind, the seller that each successful
  callback wrote into a projection, and the identifier each token was last issued for.
\<close>

fun isSubmit :: "call \<Rightarrow> bool" where
  "isSubmit (Submit eSeller eBuyer eAmount ePrice now) = True"
| "isSubmit (Request transactionId) = False"
| "isSubmit (Callback requestId cleartexts prf) = False"

fun isCallback :: "call \<Rightarrow> bool" where
  "isCallback (Submit eSeller eBuyer eAmount ePrice now) = False"
| "isCallback (Request transactionId) = False"
| "isCallback (Callback requestId cleartexts prf) = True"

fun submittedIds :: "event list \<Rightarrow> uint256 list" where
  "submittedIds [] = []"
| "submittedIds (TransactionSubmitted i t # evs) = i # submittedIds evs"
| "submittedIds (DecryptionRequested i # evs) = submittedIds evs"
| "submittedIds (TransactionDecrypted i # evs) = submittedIds evs"

fun decryptedIds :: "event list \<Rightarrow> uint256 list" where
  "decryptedIds [] = []"
| "decryptedIds (TransactionSubmitted i t # evs) = decryptedIds evs"
| "decryptedIds (DecryptionRequested i # evs) = decryptedIds evs"
| "decryptedIds (TransactionDecrypted i # evs) = i # decryptedIds evs"

fun created :: "env \<Rightarrow> contract \<Rightarrow> call list \<Rightarrow> (uint256 \<times> DecryptedTransaction) list" where
  "created e s [] = []"
| "created e s (c # cs) =
     (if isSubmit c then
        (case exec e s c of
           Inl err \<Rightarrow> []
         | Inr s' \<Rightarrow> [(transactionCount s', decryptedTransactions s' (transactionCount s'))])
      else [])
     @ created e (step e s c) cs"

fun writtenSellers :: "env \<Rightarrow> contract \<Rightarrow> call list \<Rightarrow> string list" where
  "writtenSellers e s [] = []"
| "writtenSellers e s (Callback requestId cleartexts prf # cs) =
     (case decryptTransaction e s requestId cleartexts prf of
        Inl err \<Rightarrow> []
      | Inr s' \<Rightarrow> [sellerId (decryptedTransactions s' (requestToTransactionId s requestId))])
     @ writtenSellers e (step e s (Callback requestId cleartexts prf)) cs"
| "writtenSellers e s (c # cs) = writtenSellers e (step e s c) cs"

fun issued ::
  "env \<Rightarrow> contract \<Rightarrow> (uint256 \<Rightarrow> uint256 option) \<Rightarrow> call list \<Rightarrow> (uint256 \<Rightarrow> uint256 option)" where
  "issued e s m [] = m"
| "issued e s m (Request transactionId # cs) =
     issued e (step e s (Request transactionId))
       (case requestTransactionDecryption e s transactionId of
          Inl err \<Rightarrow> m
        | Inr s' \<Rightarrow> m(counterRequest s := Some transactionId))
       cs"
| "issued e s m (c # cs) = issued e (step e s c) m cs"

text \<open>
  Three environments to run the contract in. In the first two the contract is allowed on
  every handle that is not the zero handle; in the first the verification accepts every
  callback and the decoder yields the given strings, in the second the verification
  rejects every callback. In the third the contract is allowed on no handle at all.
\<close>

definition accepting :: "string list \<Rightarrow> env" where
  "accepting results =
     \<lparr>isAllowed = (\<lambda>_. True), checkSignatures = (\<lambda>_ _ _. True), abi_decode = (\<lambda>_. Some results)\<rparr>"

definition rejecting :: env where
  "rejecting =
     \<lparr>isAllowed = (\<lambda>_. True), checkSignatures = (\<lambda>_ _ _. False), abi_decode = (\<lambda>_. None)\<rparr>"

definition denying :: env where
  "denying =
     \<lparr>isAllowed = (\<lambda>_. False), checkSignatures = (\<lambda>_ _ _. True), abi_decode = (\<lambda>_. None)\<rparr>"

definition trade :: "string list" where
  "trade = [''alice'', ''bob'', ''10'', ''500'']"

text \<open>
  The spec's scenario: one record is submitted, its decryption is requested, which hands
  out the token 0, and the callback for that token arrives with the cleartexts of the
  trade.
\<close>

definition submitted1 :: contract where
  "submitted1 =
     step (accepting trade) deployed (Submit (Handle 1) (Handle 2) (Handle 10) (Handle 500) 1000)"

definition requested1 :: contract where
  "requested1 = step (accepting trade) submitted1 (Request 1)"

definition settled1 :: contract where
  "settled1 = step (accepting trade) requested1 (Callback 0 [] [])"

subsection \<open>Invariants\<close>

text \<open>
  \<open>consistent\<close> collects what every state reached from the deployed contract satisfies:
  the slots of an identifier that is 0 or above \<^verbatim>\<open>transactionCount\<close> are zero; a token
  with an entry in \<^verbatim>\<open>requestToTransactionId\<close> is below the library's counter; the entries
  are at most \<^verbatim>\<open>transactionCount\<close>; an identifier has one \<^verbatim>\<open>TransactionDecrypted\<close> event if
  its projection is settled and none otherwise; the identifiers of the
  \<^verbatim>\<open>TransactionSubmitted\<close> events are those from 1 to \<^verbatim>\<open>transactionCount\<close>.
  \<open>tracked\<close>: \<^verbatim>\<open>requestToTransactionId\<close> holds, for each token, the identifier it was
  issued for, never 0, and 0 for a token never issued. \<open>sellers_agree\<close>: the sellers with
  an initialised accumulator are the sellers of \<^verbatim>\<open>sellerList\<close>, each listed once.
\<close>

definition consistent :: "contract \<Rightarrow> bool" where
  "consistent s \<longleftrightarrow>
     (\<forall>i. i = 0 \<or> transactionCount s < i \<longrightarrow>
        encryptedTransactions s i = zero_EncryptedTransaction
        \<and> decryptedTransactions s i = zero_DecryptedTransaction)
     \<and> (\<forall>r. requestToTransactionId s r \<noteq> 0 \<longrightarrow> r < counterRequest s)
     \<and> (\<forall>r. requestToTransactionId s r \<le> transactionCount s)
     \<and> (\<forall>i. count_list (decryptedIds (events s)) i =
            (if isSettled (decryptedTransactions s i) then 1 else 0))
     \<and> set (submittedIds (events s)) = {i. i \<noteq> 0 \<and> i \<le> transactionCount s}"

definition tracked :: "contract \<Rightarrow> (uint256 \<Rightarrow> uint256 option) \<Rightarrow> bool" where
  "tracked s m \<longleftrightarrow>
     (\<forall>r. requestToTransactionId s r = (case m r of None \<Rightarrow> 0 | Some t \<Rightarrow> t))
     \<and> (\<forall>r. m r \<noteq> Some 0)"

definition sellers_agree :: "contract \<Rightarrow> bool" where
  "sellers_agree s \<longleftrightarrow>
     {x. FHE_isInitialized (encryptedEnergyBySeller s x)} = set (sellerList s)
     \<and> distinct (sellerList s)"

section \<open>Properties\<close>

subsection \<open>What a successful call does\<close>

lemma submit_succeeds:
  "transactionCount s \<noteq> - 1 \<Longrightarrow>
   submitEncryptedTransaction s a b c d now =
     Inr (s\<lparr>transactionCount := transactionCount s + 1,
            encryptedTransactions := (encryptedTransactions s)(transactionCount s + 1 :=
              \<lparr>id_field = transactionCount s + 1, encryptedSellerId = a, encryptedBuyerId = b,
               encryptedEnergyAmount = c, encryptedPrice = d, timestamp = now\<rparr>),
            decryptedTransactions := (decryptedTransactions s)(transactionCount s + 1 :=
              zero_DecryptedTransaction),
            events := events s @ [TransactionSubmitted (transactionCount s + 1) now]\<rparr>)"
  by (simp add: submitEncryptedTransaction_def Let_def zero_DecryptedTransaction_def)

lemma submit_overflow:
  "transactionCount s = - 1 \<Longrightarrow> submitEncryptedTransaction s a b c d now = Inl Panic_Overflow"
  by (simp add: submitEncryptedTransaction_def)

lemma decryptTransaction_InrE:
  assumes "decryptTransaction e s requestId cleartexts prf = Inr s'"
  obtains results where
    "requestToTransactionId s requestId \<noteq> 0"
    "\<not> isSettled (decryptedTransactions s (requestToTransactionId s requestId))"
    "checkSignatures e requestId cleartexts prf"
    "abi_decode e cleartexts = Some results"
    "4 \<le> length results"
    "s' = s\<lparr>decryptedTransactions := (decryptedTransactions s)(requestToTransactionId s requestId :=
              \<lparr>sellerId = results ! 0, buyerId = results ! 1,
               energyAmount = results ! 2, price = results ! 3, isSettled = True\<rparr>),
            encryptedEnergyBySeller := (encryptedEnergyBySeller s)(results ! 0 :=
              FHE_add (if FHE_isInitialized (encryptedEnergyBySeller s (results ! 0))
                       then encryptedEnergyBySeller s (results ! 0) else FHE_asEuint32 0)
                (FHE_asEuint32 1)),
            sellerList := (if FHE_isInitialized (encryptedEnergyBySeller s (results ! 0))
                           then sellerList s else sellerList s @ [results ! 0]),
            events := events s @ [TransactionDecrypted (requestToTransactionId s requestId)]\<rparr>"
proof -
  from assms obtain results where dec: "abi_decode e cleartexts = Some results"
    by (auto simp: decryptTransaction_def Let_def split: if_splits option.splits)
  from assms dec have rest:
    "requestToTransactionId s requestId \<noteq> 0"
    "\<not> isSettled (decryptedTransactions s (requestToTransactionId s requestId))"
    "checkSignatures e requestId cleartexts prf"
    "4 \<le> length results"
    by (auto simp: decryptTransaction_def Let_def split: if_splits)
  from assms dec rest
  have "s' = s\<lparr>decryptedTransactions := (decryptedTransactions s)(requestToTransactionId s requestId :=
              \<lparr>sellerId = results ! 0, buyerId = results ! 1,
               energyAmount = results ! 2, price = results ! 3, isSettled = True\<rparr>),
            encryptedEnergyBySeller := (encryptedEnergyBySeller s)(results ! 0 :=
              FHE_add (if FHE_isInitialized (encryptedEnergyBySeller s (results ! 0))
                       then encryptedEnergyBySeller s (results ! 0) else FHE_asEuint32 0)
                (FHE_asEuint32 1)),
            sellerList := (if FHE_isInitialized (encryptedEnergyBySeller s (results ! 0))
                           then sellerList s else sellerList s @ [results ! 0]),
            events := events s @ [TransactionDecrypted (requestToTransactionId s requestId)]\<rparr>"
    by (auto simp: decryptTransaction_def Let_def split: if_splits)
  with dec rest that show thesis by blast
qed

lemma decryptTransaction_accepting:
  assumes "requestToTransactionId s requestId \<noteq> 0"
    and "\<not> isSettled (decryptedTransactions s (requestToTransactionId s requestId))"
    and "4 \<le> length results"
  shows "decryptTransaction (accepting results) s requestId cleartexts prf =
    Inr (s\<lparr>decryptedTransactions := (decryptedTransactions s)(requestToTransactionId s requestId :=
              \<lparr>sellerId = results ! 0, buyerId = results ! 1,
               energyAmount = results ! 2, price = results ! 3, isSettled = True\<rparr>),
            encryptedEnergyBySeller := (encryptedEnergyBySeller s)(results ! 0 :=
              FHE_add (if FHE_isInitialized (encryptedEnergyBySeller s (results ! 0))
                       then encryptedEnergyBySeller s (results ! 0) else FHE_asEuint32 0)
                (FHE_asEuint32 1)),
            sellerList := (if FHE_isInitialized (encryptedEnergyBySeller s (results ! 0))
                           then sellerList s else sellerList s @ [results ! 0]),
            events := events s @ [TransactionDecrypted (requestToTransactionId s requestId)]\<rparr>)"
  using assms by (auto simp: decryptTransaction_def Let_def accepting_def)

lemma decryptTransaction_Inr_fields:
  assumes "decryptTransaction e s requestId cleartexts prf = Inr s'"
  shows "transactionCount s' = transactionCount s"
    and "requestToTransactionId s' = requestToTransactionId s"
    and "encryptedTransactions s' = encryptedTransactions s"
    and "events s' = events s @ [TransactionDecrypted (requestToTransactionId s requestId)]"
    and "j \<noteq> requestToTransactionId s requestId \<Longrightarrow>
           decryptedTransactions s' j = decryptedTransactions s j"
    and "isSettled (decryptedTransactions s' (requestToTransactionId s requestId))"
    and "\<not> isSettled (decryptedTransactions s (requestToTransactionId s requestId))"
    and "requestToTransactionId s requestId \<noteq> 0"
  using assms by (auto elim!: decryptTransaction_InrE)

lemma request_succeeds:
  assumes "\<not> isSettled (decryptedTransactions s i)"
    and "FHE_senderAllowed e (encryptedSellerId (encryptedTransactions s i))"
    and "FHE_senderAllowed e (encryptedBuyerId (encryptedTransactions s i))"
    and "FHE_senderAllowed e (encryptedEnergyAmount (encryptedTransactions s i))"
    and "FHE_senderAllowed e (encryptedPrice (encryptedTransactions s i))"
    and "counterRequest s \<noteq> - 1"
  shows "requestTransactionDecryption e s i =
     Inr (s\<lparr>counterRequest := counterRequest s + 1,
            requestToTransactionId := (requestToTransactionId s)(counterRequest s := i),
            events := events s @ [DecryptionRequested i]\<rparr>)"
  using assms by (simp add: requestTransactionDecryption_def FHE_requestDecryption_def Let_def)

lemma request_Inr_fields:
  assumes "requestTransactionDecryption e s i = Inr s'"
  shows "\<not> isSettled (decryptedTransactions s i)"
    and "FHE_senderAllowed e (encryptedSellerId (encryptedTransactions s i))"
    and "FHE_senderAllowed e (encryptedBuyerId (encryptedTransactions s i))"
    and "FHE_senderAllowed e (encryptedEnergyAmount (encryptedTransactions s i))"
    and "FHE_senderAllowed e (encryptedPrice (encryptedTransactions s i))"
    and "counterRequest s \<noteq> - 1"
    and "s' = s\<lparr>counterRequest := counterRequest s + 1,
            requestToTransactionId := (requestToTransactionId s)(counterRequest s := i),
            events := events s @ [DecryptionRequested i]\<rparr>"
  using assms
  by (auto simp: requestTransactionDecryption_def FHE_requestDecryption_def Let_def
      split: if_splits)

lemma request_unallowed:
  assumes "\<not> isSettled (decryptedTransactions s i)"
    and "\<not> FHE_isInitialized (encryptedSellerId (encryptedTransactions s i))"
  shows "requestTransactionDecryption e s i = Inl SenderNotAllowed"
  using assms
  by (simp add: requestTransactionDecryption_def FHE_requestDecryption_def FHE_senderAllowed_def
      Let_def)

lemma callback_on_settled:
  "requestToTransactionId s r \<noteq> 0 \<Longrightarrow> isSettled (decryptedTransactions s (requestToTransactionId s r)) \<Longrightarrow>
   decryptTransaction e s r ct p = Inl AlreadySettled"
  by (simp add: decryptTransaction_def)

lemma accepting_simps:
  "checkSignatures (accepting results) requestId cleartexts prf"
  "abi_decode (accepting results) cleartexts = Some results"
  "FHE_senderAllowed (accepting results) (Handle v)"
  by (simp_all add: accepting_def FHE_senderAllowed_def)

lemma trade_simps:
  "trade ! 0 = ''alice''" "trade ! Suc 0 = ''bob''" "trade ! 2 = ''10''" "trade ! 3 = ''500''"
  "length trade = 4"
  by (simp_all add: trade_def)

subsection \<open>The scenario, evaluated\<close>

lemma submitted1_eq:
  "submitted1 = deployed\<lparr>transactionCount := 1,
      encryptedTransactions := (encryptedTransactions deployed)(1 :=
         \<lparr>id_field = 1, encryptedSellerId = Handle 1, encryptedBuyerId = Handle 2,
          encryptedEnergyAmount = Handle 10, encryptedPrice = Handle 500, timestamp = 1000\<rparr>),
      decryptedTransactions := (decryptedTransactions deployed)(1 := zero_DecryptedTransaction),
      events := [TransactionSubmitted 1 1000]\<rparr>"
  by (simp add: submitted1_def step_def submitEncryptedTransaction_def deployed_def
      zero_DecryptedTransaction_def)

lemma submitted1_fields:
  "decryptedTransactions submitted1 1 = zero_DecryptedTransaction"
  "encryptedTransactions submitted1 1 =
     \<lparr>id_field = 1, encryptedSellerId = Handle 1, encryptedBuyerId = Handle 2,
      encryptedEnergyAmount = Handle 10, encryptedPrice = Handle 500, timestamp = 1000\<rparr>"
  "counterRequest submitted1 = 0"
  "requestToTransactionId submitted1 = (\<lambda>_. 0)"
  "transactionCount submitted1 = 1"
  by (simp_all add: submitted1_eq deployed_def)

lemma requested1_request:
  "requestTransactionDecryption (accepting trade) submitted1 1 =
     Inr (submitted1\<lparr>counterRequest := 1, requestToTransactionId := (\<lambda>_. 0)(0 := 1),
            events := [TransactionSubmitted 1 1000, DecryptionRequested 1]\<rparr>)"
  by (simp add: request_succeeds submitted1_fields zero_DecryptedTransaction_def accepting_simps)
    (simp add: submitted1_eq)

lemma requested1_eq:
  "requested1 = submitted1\<lparr>counterRequest := 1, requestToTransactionId := (\<lambda>_. 0)(0 := 1),
      events := [TransactionSubmitted 1 1000, DecryptionRequested 1]\<rparr>"
  by (simp add: requested1_def step_def requested1_request)

lemma requested1_pending:
  "requestToTransactionId requested1 0 = 1"
  "\<not> isSettled (decryptedTransactions requested1 1)"
  "encryptedEnergyBySeller requested1 = (\<lambda>_. Uninitialized)"
  "sellerList requested1 = []"
  "transactionCount requested1 = 1"
  by (simp_all add: requested1_eq submitted1_eq deployed_def zero_DecryptedTransaction_def)

lemma settled1_eq:
  "decryptTransaction (accepting trade) requested1 0 [] [] = Inr settled1"
  by (simp add: settled1_def step_def decryptTransaction_accepting requested1_pending trade_simps)

lemma settled1_fields:
  "decryptedTransactions settled1 1 =
     \<lparr>sellerId = ''alice'', buyerId = ''bob'', energyAmount = ''10'', price = ''500'',
      isSettled = True\<rparr>"
  "encryptedEnergyBySeller settled1 = (\<lambda>_. Uninitialized)(''alice'' := Handle 1)"
  "sellerList settled1 = [''alice'']"
  "requestToTransactionId settled1 0 = 1"
  "transactionCount settled1 = 1"
  by (simp_all add: settled1_def step_def decryptTransaction_accepting requested1_pending trade_simps
      FHE_add_def FHE_asEuint32_def)

lemma settled1_steps:
  "step e settled1 (Request 1) = settled1"
  "step e settled1 (Callback 0 [] []) = settled1"
  by (simp_all add: step_def requestTransactionDecryption_def callback_on_settled settled1_fields)

lemma settled1_pending:
  "requestToTransactionId settled1 7 = 0"
  using decryptTransaction_Inr_fields(2) [OF settled1_eq]
  by (simp add: requested1_eq submitted1_eq deployed_def)

lemma scenario_steps:
  "step (accepting trade) deployed (Submit (Handle 1) (Handle 2) (Handle 10) (Handle 500) 1000) =
     submitted1"
  "step (accepting trade) submitted1 (Request 1) = requested1"
  "step (accepting trade) requested1 (Callback 0 [] []) = settled1"
  by (simp_all add: submitted1_def requested1_def settled1_def)

subsection \<open>Rejected callbacks\<close>

text \<open>
  C3. A callback whose token has no entry in \<^verbatim>\<open>requestToTransactionId\<close> (the mapping reads
  0 there) fails with \<open>InvalidRequest\<close>, and the storage after the call is the storage
  before it: projections, accumulators, seller list, pending requests and the record count
  are all unchanged.
\<close>

theorem callback_unknown_token:
  assumes "requestToTransactionId s requestId = 0"
  shows "decryptTransaction e s requestId cleartexts prf = Inl InvalidRequest
       \<and> step e s (Callback requestId cleartexts prf) = s"
  using assms by (simp add: decryptTransaction_def step_def)

theorem callback_unknown_token_witness:
  "requestToTransactionId requested1 7 = 0
   \<and> decryptTransaction (accepting trade) requested1 7 [] [] = Inl InvalidRequest
   \<and> step (accepting trade) requested1 (Callback 7 [] []) = requested1"
proof -
  have h: "requestToTransactionId requested1 7 = 0"
    by (simp add: requested1_eq)
  show ?thesis
    using h callback_unknown_token [OF h] by simp
qed

text \<open>
  C4. When the verification of the proof fails, the callback fails and the storage after
  the call is the storage before it. The verification is the third check: when the token
  resolves to a record that is not settled yet, so that the verification is reached, the
  error is \<open>ProofInvalid\<close>.
\<close>

theorem callback_proof_invalid:
  assumes "\<not> checkSignatures e requestId cleartexts prf"
  shows "(requestToTransactionId s requestId \<noteq> 0
          \<and> \<not> isSettled (decryptedTransactions s (requestToTransactionId s requestId))
          \<longrightarrow> decryptTransaction e s requestId cleartexts prf = Inl ProofInvalid)
       \<and> (\<exists>err. decryptTransaction e s requestId cleartexts prf = Inl err)
       \<and> step e s (Callback requestId cleartexts prf) = s"
  using assms by (simp add: decryptTransaction_def step_def Let_def)

theorem callback_proof_invalid_witness:
  "\<not> checkSignatures rejecting 0 [] []
   \<and> requestToTransactionId requested1 0 \<noteq> 0
   \<and> \<not> isSettled (decryptedTransactions requested1 (requestToTransactionId requested1 0))
   \<and> decryptTransaction rejecting requested1 0 [] [] = Inl ProofInvalid
   \<and> step rejecting requested1 (Callback 0 [] []) = requested1"
proof -
  have h: "\<not> checkSignatures rejecting 0 [] []"
    by (simp add: rejecting_def)
  show ?thesis
    using h callback_proof_invalid [OF h, of requested1] by (simp add: requested1_pending)
qed

subsection \<open>The seller accumulator\<close>

text \<open>
  C5. A successful callback adds one encrypted unit to the accumulator of the seller that
  the decoded payload names, \<^verbatim>\<open>results[0]\<close>: the new accumulator is \<^verbatim>\<open>FHE.add\<close> of the old
  one and an encryption of 1, where a seller without accumulator first gets an encryption
  of 0 and is appended to \<^verbatim>\<open>sellerList\<close>. The accumulator of every other seller is
  unchanged. The addition is on 32 bits.
\<close>

theorem settlement_adds_one_unit:
  assumes "decryptTransaction e s requestId cleartexts prf = Inr s'"
  shows "\<exists>results. abi_decode e cleartexts = Some results \<and> 4 \<le> length results \<and>
     (let seller = results ! 0; old = getEncryptedEnergyBySeller s seller in
        sellerId (decryptedTransactions s' (requestToTransactionId s requestId)) = seller
      \<and> getEncryptedEnergyBySeller s' seller =
          FHE_add (if FHE_isInitialized old then old else FHE_asEuint32 0) (FHE_asEuint32 1)
      \<and> FHE_cleartext (getEncryptedEnergyBySeller s' seller) = FHE_cleartext old + 1
      \<and> sellerList s' = (if FHE_isInitialized old then sellerList s else sellerList s @ [seller])
      \<and> (\<forall>other. other \<noteq> seller \<longrightarrow>
            getEncryptedEnergyBySeller s' other = getEncryptedEnergyBySeller s other))"
proof -
  from assms obtain results where
    dec: "abi_decode e cleartexts = Some results" and len: "4 \<le> length results" and
    s': "s' = s\<lparr>decryptedTransactions := (decryptedTransactions s)(requestToTransactionId s requestId :=
              \<lparr>sellerId = results ! 0, buyerId = results ! 1,
               energyAmount = results ! 2, price = results ! 3, isSettled = True\<rparr>),
            encryptedEnergyBySeller := (encryptedEnergyBySeller s)(results ! 0 :=
              FHE_add (if FHE_isInitialized (encryptedEnergyBySeller s (results ! 0))
                       then encryptedEnergyBySeller s (results ! 0) else FHE_asEuint32 0)
                (FHE_asEuint32 1)),
            sellerList := (if FHE_isInitialized (encryptedEnergyBySeller s (results ! 0))
                           then sellerList s else sellerList s @ [results ! 0]),
            events := events s @ [TransactionDecrypted (requestToTransactionId s requestId)]\<rparr>"
    by (rule decryptTransaction_InrE)
  show ?thesis
    apply (rule exI [of _ results])
    apply (simp add: dec len s' Let_def getEncryptedEnergyBySeller_def FHE_add_def FHE_asEuint32_def)
    apply (cases "encryptedEnergyBySeller s (results ! 0)")
     apply simp_all
    done
qed

theorem settlement_adds_one_unit_witness:
  "decryptTransaction (accepting trade) requested1 0 [] [] = Inr settled1
   \<and> getEncryptedEnergyBySeller requested1 ''alice'' = Uninitialized
   \<and> getEncryptedEnergyBySeller settled1 ''alice'' = FHE_add (FHE_asEuint32 0) (FHE_asEuint32 1)
   \<and> FHE_cleartext (getEncryptedEnergyBySeller settled1 ''alice'') = 1
   \<and> sellerList settled1 = [''alice'']
   \<and> getEncryptedEnergyBySeller settled1 ''carol'' = getEncryptedEnergyBySeller requested1 ''carol''"
  using settlement_adds_one_unit [OF settled1_eq]
  by (simp add: settled1_eq accepting_simps trade_simps getEncryptedEnergyBySeller_def
      requested1_pending Let_def FHE_add_def FHE_asEuint32_def)

subsection \<open>Record identifiers\<close>

lemma unat_max_uint256: "unat (- 1 :: uint256) = 2 ^ 256 - 1"
  by (simp add: unsigned_minus_1_eq_mask mask_eq_exp_minus_1)

lemma unat_not_max: "unat (x :: uint256) < 2 ^ 256 - 1 \<Longrightarrow> x \<noteq> - 1"
  using unat_max_uint256 by auto

lemma unat_count_succ: "(x :: uint256) \<noteq> - 1 \<Longrightarrow> unat (x + 1) = Suc (unat x)"
  using unatSuc [of x] max_word_wrap [of x] by (auto simp: add.commute)

lemma upt_from_one: "[Suc 0..<Suc (Suc n)] = Suc 0 # map Suc [Suc 0..<Suc n]"
  by (simp add: map_Suc_upt upt_conv_Cons del: upt_Suc)

lemma submittedIds_append: "submittedIds (xs @ ys) = submittedIds xs @ submittedIds ys"
  by (induction xs rule: submittedIds.induct) auto

lemma count_step_other: "\<not> isSubmit c \<Longrightarrow> transactionCount (step e s c) = transactionCount s"
  by (cases c) (auto simp: step_def dest!: request_Inr_fields(7) elim!: decryptTransaction_InrE
      split: sum.splits)

lemma submitted_step_other:
  "\<not> isSubmit c \<Longrightarrow> submittedIds (events (step e s c)) = submittedIds (events s)"
  by (cases c) (auto simp: step_def submittedIds_append dest!: request_Inr_fields(7)
      elim!: decryptTransaction_InrE split: sum.splits)

lemma distinct_ids: "N < 2 ^ 256 \<Longrightarrow> distinct (map (of_nat :: nat \<Rightarrow> uint256) [1..<Suc N])"
proof -
  have "inj_on (of_nat :: nat \<Rightarrow> uint256) (set [1..<Suc N])" if "N < 2 ^ 256"
  proof (rule inj_onI)
    fix a b assume a: "a \<in> set [1..<Suc N]" and b: "b \<in> set [1..<Suc N]"
      and eq: "(of_nat a :: uint256) = of_nat b"
    from a b that have lt: "a < 2 ^ 256" "b < 2 ^ 256" by auto
    from eq have "unat (of_nat a :: uint256) = unat (of_nat b :: uint256)" by simp
    then have "a mod 2 ^ 256 = b mod 2 ^ 256" by (simp add: unat_of_nat)
    with lt show "a = b" by (simp only: mod_less)
  qed
  then show "N < 2 ^ 256 \<Longrightarrow> distinct (map (of_nat :: nat \<Rightarrow> uint256) [1..<Suc N])"
    by (simp add: distinct_map del: upt_Suc)
qed

lemma submitted_from:
  "unat (transactionCount s) + length (filter isSubmit cs) < 2 ^ 256 \<Longrightarrow>
   submittedIds (events (run e s cs)) =
     submittedIds (events s) @
     map (\<lambda>k. transactionCount s + of_nat k) [1..<Suc (length (filter isSubmit cs))]
   \<and> transactionCount (run e s cs) = transactionCount s + of_nat (length (filter isSubmit cs))"
proof (induction cs arbitrary: s)
  case Nil
  show ?case by simp
next
  case (Cons c cs)
  show ?case
  proof (cases "isSubmit c")
    case False
    with Cons.prems have "unat (transactionCount (step e s c)) + length (filter isSubmit cs) < 2 ^ 256"
      by (simp add: count_step_other)
    from Cons.IH [OF this] False show ?thesis
      by (simp add: count_step_other submitted_step_other)
  next
    case True
    then obtain a b c' d now where c: "c = Submit a b c' d now"
      by (cases c) auto
    from Cons.prems True have nm: "transactionCount s \<noteq> - 1"
      by (intro unat_not_max) simp
    let ?s' = "step e s c"
    have cnt: "transactionCount ?s' = transactionCount s + 1"
      by (simp add: c step_def submit_succeeds [OF nm])
    have ev: "submittedIds (events ?s') = submittedIds (events s) @ [transactionCount s + 1]"
      by (simp add: c step_def submit_succeeds [OF nm] submittedIds_append)
    have u: "unat (transactionCount ?s') = Suc (unat (transactionCount s))"
      by (simp add: cnt unat_count_succ [OF nm])
    from Cons.prems True u
    have "unat (transactionCount ?s') + length (filter isSubmit cs) < 2 ^ 256"
      by simp
    from Cons.IH [OF this] show ?thesis
      using True
      by (simp add: cnt ev upt_from_one comp_def add.assoc del: upt_Suc)
  qed
qed

lemma created_from:
  "unat (transactionCount s) + length (filter isSubmit cs) < 2 ^ 256 \<Longrightarrow>
   created e s cs =
     map (\<lambda>k. (transactionCount s + of_nat k, zero_DecryptedTransaction))
       [1..<Suc (length (filter isSubmit cs))]"
proof (induction cs arbitrary: s)
  case Nil
  show ?case by simp
next
  case (Cons c cs)
  show ?case
  proof (cases "isSubmit c")
    case False
    with Cons.prems have "unat (transactionCount (step e s c)) + length (filter isSubmit cs) < 2 ^ 256"
      by (simp add: count_step_other)
    from Cons.IH [OF this] False show ?thesis
      by (simp add: count_step_other)
  next
    case True
    then obtain a b c' d now where c: "c = Submit a b c' d now"
      by (cases c) auto
    from Cons.prems True have nm: "transactionCount s \<noteq> - 1"
      by (intro unat_not_max) simp
    let ?s' = "step e s c"
    have cnt: "transactionCount ?s' = transactionCount s + 1"
      by (simp add: c step_def submit_succeeds [OF nm])
    have u: "unat (transactionCount ?s') = Suc (unat (transactionCount s))"
      by (simp add: cnt unat_count_succ [OF nm])
    from Cons.prems True u
    have "unat (transactionCount ?s') + length (filter isSubmit cs) < 2 ^ 256"
      by simp
    from Cons.IH [OF this]
    have rest: "created e ?s' cs =
      map (\<lambda>k. (transactionCount s + 1 + of_nat k, zero_DecryptedTransaction))
        [1..<Suc (length (filter isSubmit cs))]"
      by (simp add: cnt)
    have hd: "(if isSubmit c then
        (case exec e s c of
           Inl err \<Rightarrow> []
         | Inr s' \<Rightarrow> [(transactionCount s', decryptedTransactions s' (transactionCount s'))])
      else []) = [(transactionCount s + 1, zero_DecryptedTransaction)]"
      by (simp add: c submit_succeeds [OF nm])
    show ?thesis
      unfolding created.simps hd rest using True
      by (simp add: upt_from_one comp_def add.assoc del: upt_Suc)
  qed
qed

text \<open>
  C6. In any sequence of calls on the deployed contract that holds \<open>N\<close> submissions
  (fewer than \<open>2 ^ 256\<close>, the range of \<^verbatim>\<open>uint256\<close>; other calls may come between them,
  and may fail), every submission succeeds, the identifiers assigned are 1, 2, ..., \<open>N\<close>
  in call order, without repetition, and right after each submission the projection under
  its identifier is the empty, unsettled one. The identifiers are read both from the
  counter after each call and from the \<^verbatim>\<open>TransactionSubmitted\<close> events.
\<close>

theorem submit_identifiers_dense:
  assumes "length (filter isSubmit cs) < 2 ^ 256"
  shows "created e deployed cs =
           map (\<lambda>k. (of_nat k, zero_DecryptedTransaction)) [1..<Suc (length (filter isSubmit cs))]
       \<and> submittedIds (events (run e deployed cs)) =
           map of_nat [1..<Suc (length (filter isSubmit cs))]
       \<and> distinct (submittedIds (events (run e deployed cs)))
       \<and> transactionCount (run e deployed cs) = of_nat (length (filter isSubmit cs))"
proof -
  have start: "unat (transactionCount deployed) + length (filter isSubmit cs) < 2 ^ 256"
    using assms by (simp add: deployed_def)
  have c: "created e deployed cs =
      map (\<lambda>k. (of_nat k, zero_DecryptedTransaction)) [1..<Suc (length (filter isSubmit cs))]"
    using created_from [OF start] by (simp add: deployed_def del: upt_Suc)
  have i: "submittedIds (events (run e deployed cs)) =
      map of_nat [1..<Suc (length (filter isSubmit cs))]"
    and n: "transactionCount (run e deployed cs) = of_nat (length (filter isSubmit cs))"
    using submitted_from [OF start] by (simp_all add: deployed_def del: upt_Suc)
  have d: "distinct (submittedIds (events (run e deployed cs)))"
    unfolding i using assms by (rule distinct_ids)
  from c i d n show ?thesis by blast
qed

theorem submit_identifiers_dense_witness:
  "length (filter isSubmit
     [Submit (Handle 1) (Handle 2) (Handle 10) (Handle 500) 1000, Request 1,
      Submit (Handle 3) (Handle 4) (Handle 20) (Handle 700) 1001]) < 2 ^ 256
   \<and> created rejecting deployed
     [Submit (Handle 1) (Handle 2) (Handle 10) (Handle 500) 1000, Request 1,
      Submit (Handle 3) (Handle 4) (Handle 20) (Handle 700) 1001]
     = [(1, zero_DecryptedTransaction), (2, zero_DecryptedTransaction)]
   \<and> submittedIds (events (run rejecting deployed
     [Submit (Handle 1) (Handle 2) (Handle 10) (Handle 500) 1000, Request 1,
      Submit (Handle 3) (Handle 4) (Handle 20) (Handle 700) 1001])) = [1, 2]"
proof -
  have h: "length (filter isSubmit
     [Submit (Handle 1) (Handle 2) (Handle 10) (Handle 500) 1000, Request 1,
      Submit (Handle 3) (Handle 4) (Handle 20) (Handle 700) 1001]) < 2 ^ 256"
    by simp
  have u: "[1..<Suc 2] = [1, 2]"
    by (simp add: upt_rec)
  show ?thesis
    using h submit_identifiers_dense [OF h, of rejecting] by (simp add: u)
qed

subsection \<open>Reachable states\<close>

lemma word_lt_succ: "(x :: uint256) \<noteq> - 1 \<Longrightarrow> x < x + 1"
  by (simp add: word_less_nat_alt unat_count_succ)

lemma word_succ_nonzero: "(x :: uint256) \<noteq> - 1 \<Longrightarrow> x + 1 \<noteq> 0"
  using max_word_wrap by blast

lemma word_le_succ_iff: "(x :: uint256) \<noteq> - 1 \<Longrightarrow> i \<le> x + 1 \<longleftrightarrow> i \<le> x \<or> i = x + 1"
  by (auto simp: word_le_nat_alt word_unat_eq_iff unat_count_succ)

lemma decryptedIds_append: "decryptedIds (xs @ ys) = decryptedIds xs @ decryptedIds ys"
  by (induction xs rule: decryptedIds.induct) auto

lemma consistent_deployed: "consistent deployed"
  by (simp add: consistent_def deployed_def zero_DecryptedTransaction_def)

lemma consistent_submit:
  assumes c: "consistent s" and nm: "transactionCount s \<noteq> - 1"
  shows "consistent (s\<lparr>transactionCount := transactionCount s + 1,
            encryptedTransactions := (encryptedTransactions s)(transactionCount s + 1 := rec),
            decryptedTransactions := (decryptedTransactions s)(transactionCount s + 1 :=
              zero_DecryptedTransaction),
            events := events s @ [TransactionSubmitted (transactionCount s + 1) now]\<rparr>)"
proof -
  let ?n = "transactionCount s + 1"
  have lt: "transactionCount s < ?n" by (rule word_lt_succ [OF nm])
  have nz: "?n \<noteq> 0" by (rule word_succ_nonzero [OF nm])
  from c lt have old: "decryptedTransactions s ?n = zero_DecryptedTransaction"
    by (simp add: consistent_def)
  have 1: "\<forall>i. i = 0 \<or> ?n < i \<longrightarrow>
        ((encryptedTransactions s)(?n := rec)) i = zero_EncryptedTransaction
        \<and> ((decryptedTransactions s)(?n := zero_DecryptedTransaction)) i = zero_DecryptedTransaction"
    using c lt nz by (auto simp: consistent_def)
  have 2: "\<forall>r. requestToTransactionId s r \<noteq> 0 \<longrightarrow> r < counterRequest s"
    using c by (simp add: consistent_def)
  have 3: "\<forall>r. requestToTransactionId s r \<le> ?n"
    using c lt by (auto simp: consistent_def intro: order.trans less_imp_le)
  have 4: "\<forall>i. count_list (decryptedIds (events s @ [TransactionSubmitted ?n now])) i =
            (if isSettled (((decryptedTransactions s)(?n := zero_DecryptedTransaction)) i) then 1 else 0)"
    using c old by (auto simp: consistent_def decryptedIds_append)
  have 5: "set (submittedIds (events s @ [TransactionSubmitted ?n now])) = {i. i \<noteq> 0 \<and> i \<le> ?n}"
    using c nz by (auto simp: consistent_def submittedIds_append word_le_succ_iff [OF nm])
  from 1 2 3 4 5 show ?thesis
    by (simp add: consistent_def)
qed

lemma consistent_request:
  assumes c: "consistent s" and ok: "requestTransactionDecryption e s i = Inr s'"
  shows "consistent s'" and "i \<noteq> 0" and "i \<le> transactionCount s"
proof -
  note f = request_Inr_fields [OF ok]
  from f(2) have "encryptedTransactions s i \<noteq> zero_EncryptedTransaction"
    by (auto simp: FHE_senderAllowed_def zero_EncryptedTransaction_def)
  with c show nz: "i \<noteq> 0" and le: "i \<le> transactionCount s"
    by (auto simp: consistent_def not_less)
  have lt: "counterRequest s < counterRequest s + 1" by (rule word_lt_succ [OF f(6)])
  have 2: "\<forall>r. ((requestToTransactionId s)(counterRequest s := i)) r \<noteq> 0 \<longrightarrow>
      r < counterRequest s + 1"
    using c lt by (auto simp: consistent_def intro: less_trans)
  have 3: "\<forall>r. ((requestToTransactionId s)(counterRequest s := i)) r \<le> transactionCount s"
    using c le by (auto simp: consistent_def)
  from c 2 3 show "consistent s'"
    by (simp add: f(7) consistent_def decryptedIds_append submittedIds_append)
qed

lemma consistent_callback:
  assumes c: "consistent s" and ok: "decryptTransaction e s r ct p = Inr s'"
  shows "consistent s'"
proof -
  let ?t = "requestToTransactionId s r"
  note f = decryptTransaction_Inr_fields [OF ok]
  from c have le: "?t \<le> transactionCount s" by (simp add: consistent_def)
  have 1: "\<forall>i. i = 0 \<or> transactionCount s < i \<longrightarrow>
        encryptedTransactions s' i = zero_EncryptedTransaction
        \<and> decryptedTransactions s' i = zero_DecryptedTransaction"
  proof (intro allI impI)
    fix i assume i: "i = 0 \<or> transactionCount s < i"
    with le f(8) have "i \<noteq> ?t" by auto
    from f(5) [OF this] c i show "encryptedTransactions s' i = zero_EncryptedTransaction
        \<and> decryptedTransactions s' i = zero_DecryptedTransaction"
      by (auto simp: consistent_def f(3))
  qed
  have 4: "\<forall>i. count_list (decryptedIds (events s')) i =
            (if isSettled (decryptedTransactions s' i) then 1 else 0)"
  proof
    fix i
    show "count_list (decryptedIds (events s')) i =
            (if isSettled (decryptedTransactions s' i) then 1 else 0)"
    proof (cases "i = ?t")
      case True
      with c f(6) f(7) show ?thesis
        by (simp add: consistent_def f(4) decryptedIds_append)
    next
      case False
      with c f(5) [OF False] show ?thesis
        by (simp add: consistent_def f(4) decryptedIds_append)
    qed
  qed
  have 5: "set (submittedIds (events s')) = {i. i \<noteq> 0 \<and> i \<le> transactionCount s}"
    using c by (simp add: consistent_def f(4) submittedIds_append)
  have cr: "counterRequest s' = counterRequest s"
    using ok by (auto elim!: decryptTransaction_InrE)
  from c 1 4 5 show ?thesis
    by (simp add: consistent_def f(1) f(2) cr)
qed

lemma consistent_step: "consistent s \<Longrightarrow> consistent (step e s c)"
proof (cases c)
  case (Submit a b c' d now)
  assume "consistent s"
  then show ?thesis
    by (cases "transactionCount s = - 1")
      (simp_all add: Submit step_def submit_overflow submit_succeeds consistent_submit)
next
  case (Request i)
  assume "consistent s"
  then show ?thesis
    by (cases "requestTransactionDecryption e s i")
      (simp_all add: Request step_def consistent_request(1))
next
  case (Callback r ct p)
  assume "consistent s"
  then show ?thesis
    by (cases "decryptTransaction e s r ct p")
      (simp_all add: Callback step_def consistent_callback)
qed

lemma consistent_run: "consistent s \<Longrightarrow> consistent (run e s cs)"
  by (induction cs arbitrary: s) (simp_all add: consistent_step)

lemma consistent_reached: "consistent (run e deployed cs)"
  by (rule consistent_run [OF consistent_deployed])

lemma scenario_runs:
  "run (accepting trade) deployed
     [Submit (Handle 1) (Handle 2) (Handle 10) (Handle 500) 1000] = submitted1"
  "run (accepting trade) deployed
     [Submit (Handle 1) (Handle 2) (Handle 10) (Handle 500) 1000, Request 1] = requested1"
  "run (accepting trade) deployed
     [Submit (Handle 1) (Handle 2) (Handle 10) (Handle 500) 1000, Request 1, Callback 0 [] []] =
     settled1"
  by (simp_all add: scenario_steps)

lemma requested1_events:
  "events requested1 = [TransactionSubmitted 1 1000, DecryptionRequested 1]"
  "counterRequest requested1 = 1"
  by (simp_all add: requested1_eq)

lemma settled1_events:
  "events settled1 = [TransactionSubmitted 1 1000, DecryptionRequested 1, TransactionDecrypted 1]"
  using decryptTransaction_Inr_fields(4) [OF settled1_eq]
  by (simp add: requested1_events requested1_pending)

subsection \<open>Settlement happens once\<close>

lemma settled_assigned:
  "consistent s \<Longrightarrow> isSettled (decryptedTransactions s i) \<Longrightarrow> i \<noteq> 0 \<and> i \<le> transactionCount s"
  by (auto simp: consistent_def zero_DecryptedTransaction_def not_less [symmetric])

lemma settled_frozen_step:
  assumes "i \<le> transactionCount s" and "isSettled (decryptedTransactions s i)"
  shows "decryptedTransactions (step e s c) i = decryptedTransactions s i
       \<and> i \<le> transactionCount (step e s c)"
proof (cases c)
  case (Submit a b c' d now)
  show ?thesis
  proof (cases "transactionCount s = - 1")
    case True
    then show ?thesis using assms by (simp add: Submit step_def submit_overflow)
  next
    case False
    from assms(1) word_lt_succ [OF False] have "i < transactionCount s + 1"
      by (rule le_less_trans)
    then show ?thesis
      by (auto simp: Submit step_def submit_succeeds [OF False])
  qed
next
  case (Request t)
  show ?thesis
  proof (cases "requestTransactionDecryption e s t")
    case (Inl err)
    then show ?thesis using assms by (simp add: Request step_def)
  next
    case (Inr s')
    from request_Inr_fields(7) [OF Inr] assms show ?thesis
      by (simp add: Request step_def Inr)
  qed
next
  case (Callback r ct p)
  show ?thesis
  proof (cases "decryptTransaction e s r ct p")
    case (Inl err)
    then show ?thesis using assms by (simp add: Callback step_def)
  next
    case (Inr s')
    note f = decryptTransaction_Inr_fields [OF Inr]
    from assms(2) f(7) have ne: "i \<noteq> requestToTransactionId s r" by auto
    show ?thesis using assms ne
      by (simp add: Callback step_def Inr f(1) f(5))
  qed
qed

lemma settled_frozen_run:
  assumes "i \<le> transactionCount s" and "isSettled (decryptedTransactions s i)"
  shows "decryptedTransactions (run e s cs) i = decryptedTransactions s i"
  using assms
proof (induction cs arbitrary: s)
  case Nil
  then show ?case by simp
next
  case (Cons c cs)
  from settled_frozen_step [OF Cons.prems, of e c]
  have st: "decryptedTransactions (step e s c) i = decryptedTransactions s i"
    "i \<le> transactionCount (step e s c)"
    by simp_all
  from st(1) Cons.prems(2) have "isSettled (decryptedTransactions (step e s c) i)" by simp
  from Cons.IH [OF st(2) this] st show ?case by simp
qed

text \<open>
  C1. Take any state reached from the deployed contract and any identifier. The
  \<^verbatim>\<open>TransactionDecrypted\<close> events, one per successful callback, name the identifier at most
  once. A callback that succeeds for the identifier finds no such event yet and leaves the
  projection settled. Once the projection is settled it stays exactly as written through
  every later sequence of calls, in particular the flag is never reset; every later
  callback whose token resolves to the identifier fails with \<open>AlreadySettled\<close>, and a
  callback whose token resolves to nothing fails with \<open>InvalidRequest\<close>.
\<close>

theorem settlement_at_most_once:
  "count_list (decryptedIds (events (run e deployed cs))) i \<le> 1
   \<and> (\<forall>r ct p s1. decryptTransaction e1 (run e deployed cs) r ct p = Inr s1
          \<and> requestToTransactionId (run e deployed cs) r = i \<longrightarrow>
        isSettled (decryptedTransactions s1 i)
        \<and> count_list (decryptedIds (events (run e deployed cs))) i = 0)
   \<and> (isSettled (decryptedTransactions (run e deployed cs) i) \<longrightarrow>
        decryptedTransactions (run e2 (run e deployed cs) cs') i =
          decryptedTransactions (run e deployed cs) i
        \<and> (\<forall>r ct p. requestToTransactionId (run e2 (run e deployed cs) cs') r = i \<longrightarrow>
              decryptTransaction e3 (run e2 (run e deployed cs) cs') r ct p = Inl AlreadySettled)
        \<and> (\<forall>r ct p. requestToTransactionId (run e2 (run e deployed cs) cs') r = 0 \<longrightarrow>
              decryptTransaction e3 (run e2 (run e deployed cs) cs') r ct p = Inl InvalidRequest))"
proof -
  let ?s = "run e deployed cs"
  have c: "consistent ?s" by (rule consistent_reached)
  then have once: "count_list (decryptedIds (events ?s)) i =
      (if isSettled (decryptedTransactions ?s i) then 1 else 0)"
    by (simp add: consistent_def)
  then have 1: "count_list (decryptedIds (events ?s)) i \<le> 1" by simp
  have 2: "\<forall>r ct p s1. decryptTransaction e1 ?s r ct p = Inr s1
          \<and> requestToTransactionId ?s r = i \<longrightarrow>
        isSettled (decryptedTransactions s1 i) \<and> count_list (decryptedIds (events ?s)) i = 0"
    using once by (auto dest: decryptTransaction_Inr_fields(6,7))
  have 3: "decryptedTransactions (run e2 ?s cs') i = decryptedTransactions ?s i
        \<and> (\<forall>r ct p. requestToTransactionId (run e2 ?s cs') r = i \<longrightarrow>
              decryptTransaction e3 (run e2 ?s cs') r ct p = Inl AlreadySettled)
        \<and> (\<forall>r ct p. requestToTransactionId (run e2 ?s cs') r = 0 \<longrightarrow>
              decryptTransaction e3 (run e2 ?s cs') r ct p = Inl InvalidRequest)"
    if st: "isSettled (decryptedTransactions ?s i)"
  proof -
    from settled_assigned [OF c st] have nz: "i \<noteq> 0" and le: "i \<le> transactionCount ?s"
      by simp_all
    have fr: "decryptedTransactions (run e2 ?s cs') i = decryptedTransactions ?s i"
      by (rule settled_frozen_run [OF le st])
    with st have st2: "isSettled (decryptedTransactions (run e2 ?s cs') i)" by simp
    have a: "\<forall>r ct p. requestToTransactionId (run e2 ?s cs') r = i \<longrightarrow>
              decryptTransaction e3 (run e2 ?s cs') r ct p = Inl AlreadySettled"
      using nz st2 by (simp add: callback_on_settled)
    have b: "\<forall>r ct p. requestToTransactionId (run e2 ?s cs') r = 0 \<longrightarrow>
              decryptTransaction e3 (run e2 ?s cs') r ct p = Inl InvalidRequest"
      by (simp add: decryptTransaction_def)
    from fr a b show ?thesis by blast
  qed
  from 1 2 3 show ?thesis by blast
qed

theorem settlement_at_most_once_witness:
  "decryptTransaction (accepting trade) requested1 0 [] [] = Inr settled1
   \<and> requestToTransactionId requested1 0 = 1
   \<and> count_list (decryptedIds (events requested1)) 1 = 0
   \<and> isSettled (decryptedTransactions settled1 1)
   \<and> count_list (decryptedIds (events settled1)) 1 \<le> 1
   \<and> decryptedTransactions (run rejecting settled1 [Request 1, Callback 0 [] []]) 1 =
       decryptedTransactions settled1 1
   \<and> requestToTransactionId (run rejecting settled1 [Request 1, Callback 0 [] []]) 0 = 1
   \<and> decryptTransaction (accepting trade)
        (run rejecting settled1 [Request 1, Callback 0 [] []]) 0 [] [] = Inl AlreadySettled
   \<and> requestToTransactionId (run rejecting settled1 [Request 1, Callback 0 [] []]) 7 = 0
   \<and> decryptTransaction (accepting trade)
        (run rejecting settled1 [Request 1, Callback 0 [] []]) 7 [] [] = Inl InvalidRequest"
proof -
  have r: "run rejecting settled1 [Request 1, Callback 0 [] []] = settled1"
    by (simp add: settled1_steps)
  note a = settlement_at_most_once [of "accepting trade"
      "[Submit (Handle 1) (Handle 2) (Handle 10) (Handle 500) 1000, Request 1]" 1
      "accepting trade" rejecting "[]" "accepting trade"]
  note b = settlement_at_most_once [of "accepting trade"
      "[Submit (Handle 1) (Handle 2) (Handle 10) (Handle 500) 1000, Request 1, Callback 0 [] []]" 1
      "accepting trade" rejecting "[Request 1, Callback 0 [] []]" "accepting trade"]
  from a have a1: "count_list (decryptedIds (events requested1)) 1 = 0"
    unfolding scenario_runs using settled1_eq requested1_pending(1) by blast
  from b have b1: "count_list (decryptedIds (events settled1)) 1 \<le> 1"
    and b2: "decryptedTransactions (run rejecting settled1 [Request 1, Callback 0 [] []]) 1 =
       decryptedTransactions settled1 1"
    and b3: "decryptTransaction (accepting trade)
        (run rejecting settled1 [Request 1, Callback 0 [] []]) 0 [] [] = Inl AlreadySettled"
    and b4: "decryptTransaction (accepting trade)
        (run rejecting settled1 [Request 1, Callback 0 [] []]) 7 [] [] = Inl InvalidRequest"
    unfolding scenario_runs using settled1_fields(1,4) settled1_pending r by auto
  from a1 b1 b2 b3 b4 show ?thesis
    by (simp add: settled1_eq requested1_pending settled1_fields settled1_pending settled1_steps)
qed

subsection \<open>Requesting a settlement\<close>

lemma request_unknown:
  assumes "consistent s" and "i \<notin> set (submittedIds (events s))"
  shows "requestTransactionDecryption e s i = Inl SenderNotAllowed"
proof -
  from assms have "i = 0 \<or> transactionCount s < i"
    by (auto simp: consistent_def)
  with assms(1) have "encryptedTransactions s i = zero_EncryptedTransaction"
    and "decryptedTransactions s i = zero_DecryptedTransaction"
    by (auto simp: consistent_def)
  then show ?thesis
    by (intro request_unallowed)
      (simp_all add: zero_EncryptedTransaction_def zero_DecryptedTransaction_def)
qed

lemma request_repeat:
  assumes "\<not> isSettled (decryptedTransactions s i)"
    and "FHE_senderAllowed e (encryptedSellerId (encryptedTransactions s i))"
    and "FHE_senderAllowed e (encryptedBuyerId (encryptedTransactions s i))"
    and "FHE_senderAllowed e (encryptedEnergyAmount (encryptedTransactions s i))"
    and "FHE_senderAllowed e (encryptedPrice (encryptedTransactions s i))"
    and "unat (counterRequest s) + n < 2 ^ 256"
  shows "outcomes e s (replicate n (Request i)) = replicate n None
       \<and> (\<forall>r. requestToTransactionId (run e s (replicate n (Request i))) r =
             (if unat (counterRequest s) \<le> unat r \<and> unat r < unat (counterRequest s) + n
              then i else requestToTransactionId s r))
       \<and> unat (counterRequest (run e s (replicate n (Request i)))) = unat (counterRequest s) + n"
  using assms
proof (induction n arbitrary: s)
  case 0
  show ?case by auto
next
  case (Suc n)
  from Suc.prems(6) have nm: "counterRequest s \<noteq> - 1"
    by (intro unat_not_max) simp
  let ?s1 = "s\<lparr>counterRequest := counterRequest s + 1,
            requestToTransactionId := (requestToTransactionId s)(counterRequest s := i),
            events := events s @ [DecryptionRequested i]\<rparr>"
  have ok: "requestTransactionDecryption e s i = Inr ?s1"
    by (rule request_succeeds [OF Suc.prems(1-5) nm])
  then have st: "step e s (Request i) = ?s1"
    by (simp add: step_def)
  have u: "unat (counterRequest ?s1) = Suc (unat (counterRequest s))"
    by (simp add: unat_count_succ [OF nm])
  have pre: "\<not> isSettled (decryptedTransactions ?s1 i)"
    "FHE_senderAllowed e (encryptedSellerId (encryptedTransactions ?s1 i))"
    "FHE_senderAllowed e (encryptedBuyerId (encryptedTransactions ?s1 i))"
    "FHE_senderAllowed e (encryptedEnergyAmount (encryptedTransactions ?s1 i))"
    "FHE_senderAllowed e (encryptedPrice (encryptedTransactions ?s1 i))"
    "unat (counterRequest ?s1) + n < 2 ^ 256"
    using Suc.prems u by simp_all
  note ih = Suc.IH [OF pre]
  have o: "outcomes e s (replicate (Suc n) (Request i)) = replicate (Suc n) None"
    using ih by (simp add: ok st)
  have cnt: "unat (counterRequest (run e s (replicate (Suc n) (Request i)))) =
      unat (counterRequest s) + Suc n"
    using ih u by (simp add: st)
  have m: "\<forall>r. requestToTransactionId (run e s (replicate (Suc n) (Request i))) r =
             (if unat (counterRequest s) \<le> unat r \<and> unat r < unat (counterRequest s) + Suc n
              then i else requestToTransactionId s r)"
  proof
    fix r
    from ih have "requestToTransactionId (run e ?s1 (replicate n (Request i))) r =
        (if unat (counterRequest ?s1) \<le> unat r \<and> unat r < unat (counterRequest ?s1) + n
         then i else requestToTransactionId ?s1 r)"
      by blast
    then show "requestToTransactionId (run e s (replicate (Suc n) (Request i))) r =
             (if unat (counterRequest s) \<le> unat r \<and> unat r < unat (counterRequest s) + Suc n
              then i else requestToTransactionId s r)"
      unfolding u by (auto simp: st word_unat_eq_iff)
  qed
  from o m cnt show ?case by blast
qed

text \<open>
  C2, as the code has it. In every state reached from the deployed contract,
  \<^verbatim>\<open>requestTransactionDecryption\<close> fails and leaves the storage as it was when its
  precondition is violated: with \<open>AlreadySettled\<close> when the projection is settled, and
  with the library's \<open>SenderNotAllowed\<close> when the identifier was never submitted, for the
  handles of such an identifier are zero handles. When the projection is not settled and
  the contract is allowed on the four handles of the record, the record exists and the
  call succeeds any number \<open>n\<close> of times in a row (as far as the library's counter
  reaches): the \<open>n\<close> tokens are the next \<open>n\<close> values of the counter, none of them had
  an entry before, each of them is mapped to the identifier afterwards, and no other entry
  changes.
\<close>

theorem request_settlement:
  "(isSettled (decryptedTransactions (run e deployed cs) i) \<longrightarrow>
      requestTransactionDecryption e' (run e deployed cs) i = Inl AlreadySettled
      \<and> step e' (run e deployed cs) (Request i) = run e deployed cs)
   \<and> (i \<notin> set (submittedIds (events (run e deployed cs))) \<longrightarrow>
      requestTransactionDecryption e' (run e deployed cs) i = Inl SenderNotAllowed
      \<and> step e' (run e deployed cs) (Request i) = run e deployed cs)
   \<and> (\<not> isSettled (decryptedTransactions (run e deployed cs) i)
      \<and> FHE_senderAllowed e' (encryptedSellerId (encryptedTransactions (run e deployed cs) i))
      \<and> FHE_senderAllowed e' (encryptedBuyerId (encryptedTransactions (run e deployed cs) i))
      \<and> FHE_senderAllowed e' (encryptedEnergyAmount (encryptedTransactions (run e deployed cs) i))
      \<and> FHE_senderAllowed e' (encryptedPrice (encryptedTransactions (run e deployed cs) i))
      \<and> unat (counterRequest (run e deployed cs)) + n < 2 ^ 256 \<longrightarrow>
      i \<in> set (submittedIds (events (run e deployed cs)))
      \<and> outcomes e' (run e deployed cs) (replicate n (Request i)) = replicate n None
      \<and> (\<forall>r. requestToTransactionId (run e' (run e deployed cs) (replicate n (Request i))) r =
            (if unat (counterRequest (run e deployed cs)) \<le> unat r
                \<and> unat r < unat (counterRequest (run e deployed cs)) + n
             then i else requestToTransactionId (run e deployed cs) r))
      \<and> (\<forall>r. unat (counterRequest (run e deployed cs)) \<le> unat r \<longrightarrow>
            requestToTransactionId (run e deployed cs) r = 0))"
proof -
  let ?s = "run e deployed cs"
  have c: "consistent ?s" by (rule consistent_reached)
  have 1: "isSettled (decryptedTransactions ?s i) \<longrightarrow>
      requestTransactionDecryption e' ?s i = Inl AlreadySettled \<and> step e' ?s (Request i) = ?s"
    by (simp add: requestTransactionDecryption_def step_def)
  have 2: "i \<notin> set (submittedIds (events ?s)) \<longrightarrow>
      requestTransactionDecryption e' ?s i = Inl SenderNotAllowed \<and> step e' ?s (Request i) = ?s"
    using request_unknown [OF c, of i e'] by (simp add: step_def)
  have fresh: "\<forall>r. unat (counterRequest ?s) \<le> unat r \<longrightarrow> requestToTransactionId ?s r = 0"
    using c by (auto simp: consistent_def word_less_nat_alt)
  have 3: "i \<in> set (submittedIds (events ?s))
      \<and> outcomes e' ?s (replicate n (Request i)) = replicate n None
      \<and> (\<forall>r. requestToTransactionId (run e' ?s (replicate n (Request i))) r =
            (if unat (counterRequest ?s) \<le> unat r \<and> unat r < unat (counterRequest ?s) + n
             then i else requestToTransactionId ?s r))
      \<and> (\<forall>r. unat (counterRequest ?s) \<le> unat r \<longrightarrow> requestToTransactionId ?s r = 0)"
    if pre: "\<not> isSettled (decryptedTransactions ?s i)"
      "FHE_senderAllowed e' (encryptedSellerId (encryptedTransactions ?s i))"
      "FHE_senderAllowed e' (encryptedBuyerId (encryptedTransactions ?s i))"
      "FHE_senderAllowed e' (encryptedEnergyAmount (encryptedTransactions ?s i))"
      "FHE_senderAllowed e' (encryptedPrice (encryptedTransactions ?s i))"
      "unat (counterRequest ?s) + n < 2 ^ 256"
  proof -
    have "i \<in> set (submittedIds (events ?s))"
    proof (rule ccontr)
      assume "i \<notin> set (submittedIds (events ?s))"
      from request_unknown [OF c this, of e'] pre(1-5) show False
        by (simp add: requestTransactionDecryption_def FHE_requestDecryption_def Let_def
            split: if_splits)
    qed
    with request_repeat [OF pre] fresh show ?thesis by blast
  qed
  from 1 2 3 show ?thesis by blast
qed

theorem request_settlement_witness:
  "isSettled (decryptedTransactions settled1 1)
   \<and> requestTransactionDecryption (accepting trade) settled1 1 = Inl AlreadySettled
   \<and> step (accepting trade) settled1 (Request 1) = settled1
   \<and> 5 \<notin> set (submittedIds (events submitted1))
   \<and> requestTransactionDecryption (accepting trade) submitted1 5 = Inl SenderNotAllowed
   \<and> step (accepting trade) submitted1 (Request 5) = submitted1
   \<and> \<not> isSettled (decryptedTransactions submitted1 1)
   \<and> FHE_senderAllowed (accepting trade) (encryptedSellerId (encryptedTransactions submitted1 1))
   \<and> FHE_senderAllowed (accepting trade) (encryptedBuyerId (encryptedTransactions submitted1 1))
   \<and> FHE_senderAllowed (accepting trade) (encryptedEnergyAmount (encryptedTransactions submitted1 1))
   \<and> FHE_senderAllowed (accepting trade) (encryptedPrice (encryptedTransactions submitted1 1))
   \<and> unat (counterRequest submitted1) + 2 < 2 ^ 256
   \<and> 1 \<in> set (submittedIds (events submitted1))
   \<and> outcomes (accepting trade) submitted1 (replicate 2 (Request 1)) = [None, None]
   \<and> requestToTransactionId submitted1 0 = 0
   \<and> requestToTransactionId submitted1 1 = 0
   \<and> requestToTransactionId (run (accepting trade) submitted1 (replicate 2 (Request 1))) 0 = 1
   \<and> requestToTransactionId (run (accepting trade) submitted1 (replicate 2 (Request 1))) 1 = 1
   \<and> requestToTransactionId (run (accepting trade) submitted1 (replicate 2 (Request 1))) 2 = 0"
proof -
  have ev: "events submitted1 = [TransactionSubmitted 1 1000]"
    by (simp add: submitted1_eq)
  note a = request_settlement [of "accepting trade"
      "[Submit (Handle 1) (Handle 2) (Handle 10) (Handle 500) 1000, Request 1, Callback 0 [] []]" 1
      "accepting trade" 0]
  note b = request_settlement [of "accepting trade"
      "[Submit (Handle 1) (Handle 2) (Handle 10) (Handle 500) 1000]" 5 "accepting trade" 0]
  note c = request_settlement [of "accepting trade"
      "[Submit (Handle 1) (Handle 2) (Handle 10) (Handle 500) 1000]" 1 "accepting trade" 2]
  have pre: "\<not> isSettled (decryptedTransactions submitted1 1)"
    "FHE_senderAllowed (accepting trade) (encryptedSellerId (encryptedTransactions submitted1 1))"
    "FHE_senderAllowed (accepting trade) (encryptedBuyerId (encryptedTransactions submitted1 1))"
    "FHE_senderAllowed (accepting trade) (encryptedEnergyAmount (encryptedTransactions submitted1 1))"
    "FHE_senderAllowed (accepting trade) (encryptedPrice (encryptedTransactions submitted1 1))"
    "unat (counterRequest submitted1) + 2 < 2 ^ 256"
    by (simp_all add: submitted1_fields zero_DecryptedTransaction_def accepting_simps)
  from a have a': "requestTransactionDecryption (accepting trade) settled1 1 = Inl AlreadySettled"
    "step (accepting trade) settled1 (Request 1) = settled1"
    unfolding scenario_runs by (simp_all add: settled1_fields)
  from b have b': "requestTransactionDecryption (accepting trade) submitted1 5 = Inl SenderNotAllowed"
    "step (accepting trade) submitted1 (Request 5) = submitted1"
    unfolding scenario_runs by (simp_all add: ev)
  from c pre have c': "1 \<in> set (submittedIds (events submitted1))"
    "outcomes (accepting trade) submitted1 (replicate 2 (Request 1)) = replicate 2 None"
    "\<forall>r. requestToTransactionId (run (accepting trade) submitted1 (replicate 2 (Request 1))) r =
            (if unat (counterRequest submitted1) \<le> unat r
                \<and> unat r < unat (counterRequest submitted1) + 2
             then 1 else requestToTransactionId submitted1 r)"
    "\<forall>r. unat (counterRequest submitted1) \<le> unat r \<longrightarrow> requestToTransactionId submitted1 r = 0"
    unfolding scenario_runs by blast+
  have t: "requestToTransactionId (run (accepting trade) submitted1 (replicate 2 (Request 1))) 0 = 1"
    "requestToTransactionId (run (accepting trade) submitted1 (replicate 2 (Request 1))) 1 = 1"
    "requestToTransactionId (run (accepting trade) submitted1 (replicate 2 (Request 1))) 2 = 0"
    by (simp_all add: c'(3) submitted1_fields)
  from a' b' c'(1,2) t pre show ?thesis
    by (simp add: settled1_fields ev submitted1_fields del: run.simps outcomes.simps replicate.simps)
      (simp add: numeral_2_eq_2)
qed

text \<open>
  C2, as stated, fails in two places. The request for identifier 5 on the deployed
  contract, which holds no record, fails with \<open>SenderNotAllowed\<close>, not with
  \<open>AlreadySettled\<close>. And where the contract is not allowed on the handles, the request
  for the submitted, unsettled record 1 fails as well.
\<close>

theorem request_unknown_record_counterexample:
  "outcomes (accepting trade) deployed [Request 5] = [Some SenderNotAllowed]
   \<and> SenderNotAllowed \<noteq> AlreadySettled
   \<and> outcomes denying deployed
        [Submit (Handle 1) (Handle 2) (Handle 10) (Handle 500) 1000, Request 1] =
       [None, Some SenderNotAllowed]"
proof -
  have a: "requestTransactionDecryption (accepting trade) deployed 5 = Inl SenderNotAllowed"
    by (rule request_unallowed)
      (simp_all add: deployed_def zero_DecryptedTransaction_def zero_EncryptedTransaction_def)
  have s: "step denying deployed (Submit (Handle 1) (Handle 2) (Handle 10) (Handle 500) 1000) =
      submitted1"
    by (simp add: submitted1_def step_def)
  have sub: "submitEncryptedTransaction deployed (Handle 1) (Handle 2) (Handle 10) (Handle 500) 1000 =
      Inr submitted1"
    by (simp add: submitted1_def step_def submitEncryptedTransaction_def deployed_def)
  have b: "requestTransactionDecryption denying submitted1 1 = Inl SenderNotAllowed"
    by (simp add: requestTransactionDecryption_def FHE_requestDecryption_def FHE_senderAllowed_def
        denying_def submitted1_fields zero_DecryptedTransaction_def Let_def)
  show ?thesis
    by (simp add: a s sub b)
qed

subsection \<open>The sellers\<close>

lemma sellers_other_step:
  "\<not> isCallback c \<Longrightarrow>
   sellerList (step e s c) = sellerList s
   \<and> encryptedEnergyBySeller (step e s c) = encryptedEnergyBySeller s"
  by (cases c)
    (auto simp: step_def submitEncryptedTransaction_def Let_def dest!: request_Inr_fields(7)
      split: sum.splits)

lemma decryptTransaction_Inr_sellers:
  assumes "decryptTransaction e s requestId cleartexts prf = Inr s'" and "sellers_agree s"
  shows "set (sellerList s') =
           insert (sellerId (decryptedTransactions s' (requestToTransactionId s requestId)))
             (set (sellerList s))"
    and "sellers_agree s'"
proof -
  from assms(1) obtain results where
    s': "s' = s\<lparr>decryptedTransactions := (decryptedTransactions s)(requestToTransactionId s requestId :=
              \<lparr>sellerId = results ! 0, buyerId = results ! 1,
               energyAmount = results ! 2, price = results ! 3, isSettled = True\<rparr>),
            encryptedEnergyBySeller := (encryptedEnergyBySeller s)(results ! 0 :=
              FHE_add (if FHE_isInitialized (encryptedEnergyBySeller s (results ! 0))
                       then encryptedEnergyBySeller s (results ! 0) else FHE_asEuint32 0)
                (FHE_asEuint32 1)),
            sellerList := (if FHE_isInitialized (encryptedEnergyBySeller s (results ! 0))
                           then sellerList s else sellerList s @ [results ! 0]),
            events := events s @ [TransactionDecrypted (requestToTransactionId s requestId)]\<rparr>"
    by (rule decryptTransaction_InrE)
  from assms(2) show "sellers_agree s'"
    unfolding s' sellers_agree_def by (auto simp: FHE_add_def)
  from assms(2) show "set (sellerList s') =
           insert (sellerId (decryptedTransactions s' (requestToTransactionId s requestId)))
             (set (sellerList s))"
    unfolding s' sellers_agree_def by auto
qed

lemma sellers_agree_step: "sellers_agree s \<Longrightarrow> sellers_agree (step e s c)"
proof (cases "isCallback c")
  case False
  assume "sellers_agree s"
  with sellers_other_step [OF False, of e s] show ?thesis
    by (simp add: sellers_agree_def)
next
  case True
  assume a: "sellers_agree s"
  from True obtain r ct p where c: "c = Callback r ct p"
    by (cases c) auto
  show ?thesis
  proof (cases "decryptTransaction e s r ct p")
    case (Inl err)
    with a show ?thesis by (simp add: c step_def)
  next
    case (Inr s')
    with decryptTransaction_Inr_sellers(2) [OF Inr a] show ?thesis by (simp add: c step_def)
  qed
qed

lemma written_run:
  "sellers_agree s \<Longrightarrow>
   sellers_agree (run e s cs)
   \<and> set (sellerList (run e s cs)) = set (sellerList s) \<union> set (writtenSellers e s cs)"
proof (induction cs arbitrary: s)
  case Nil
  then show ?case by simp
next
  case (Cons c cs)
  note ih = Cons.IH [OF sellers_agree_step [OF Cons.prems, of e c]]
  show ?case
  proof (cases c)
    case (Submit a b c' d now)
    with ih sellers_other_step [of c e s] show ?thesis by simp
  next
    case (Request t)
    with ih sellers_other_step [of c e s] show ?thesis by simp
  next
    case (Callback r ct p)
    show ?thesis
    proof (cases "decryptTransaction e s r ct p")
      case (Inl err)
      with ih show ?thesis by (simp add: Callback step_def)
    next
      case (Inr s')
      from decryptTransaction_Inr_sellers(1) [OF Inr Cons.prems] ih show ?thesis
        by (simp add: Callback step_def Inr)
    qed
  qed
qed

text \<open>
  C7. In every state reached from the deployed contract, the sellers whose accumulator is
  initialised are the sellers of \<^verbatim>\<open>sellerList\<close>, each listed once, and they are the
  sellers that the successful callbacks so far wrote into a projection. A call that is
  not a callback leaves the list and the accumulators as they were.
\<close>

theorem sellers_are_settled_sellers:
  "{x. FHE_isInitialized (getEncryptedEnergyBySeller (run e deployed cs) x)} =
     set (sellerList (run e deployed cs))
   \<and> set (sellerList (run e deployed cs)) = set (writtenSellers e deployed cs)
   \<and> distinct (sellerList (run e deployed cs))
   \<and> (\<not> isCallback c \<longrightarrow>
        sellerList (step e s c) = sellerList s
        \<and> encryptedEnergyBySeller (step e s c) = encryptedEnergyBySeller s)"
proof -
  have "sellers_agree deployed"
    by (simp add: sellers_agree_def deployed_def)
  from written_run [OF this, of e cs]
  have 1: "{x. FHE_isInitialized (getEncryptedEnergyBySeller (run e deployed cs) x)} =
     set (sellerList (run e deployed cs))"
    and 2: "set (sellerList (run e deployed cs)) = set (writtenSellers e deployed cs)"
    and 3: "distinct (sellerList (run e deployed cs))"
    by (simp_all add: sellers_agree_def getEncryptedEnergyBySeller_def deployed_def)
  have 4: "\<not> isCallback c \<longrightarrow>
        sellerList (step e s c) = sellerList s
        \<and> encryptedEnergyBySeller (step e s c) = encryptedEnergyBySeller s"
    using sellers_other_step [of c e s] by blast
  from 1 2 3 4 show ?thesis by blast
qed

theorem sellers_are_settled_sellers_witness:
  "\<not> isCallback (Request 1)
   \<and> sellerList (step (accepting trade) settled1 (Request 1)) = sellerList settled1
   \<and> set (sellerList (run (accepting trade) deployed
        [Submit (Handle 1) (Handle 2) (Handle 10) (Handle 500) 1000, Request 1,
         Callback 0 [] []])) = {''alice''}
   \<and> set (writtenSellers (accepting trade) deployed
        [Submit (Handle 1) (Handle 2) (Handle 10) (Handle 500) 1000, Request 1,
         Callback 0 [] []]) = {''alice''}"
  using sellers_are_settled_sellers [of "accepting trade"
      "[Submit (Handle 1) (Handle 2) (Handle 10) (Handle 500) 1000, Request 1, Callback 0 [] []]"
      "Request 1" settled1]
  by (simp add: scenario_steps settled1_eq settled1_fields requested1_pending)

subsection \<open>Reading a projection\<close>

text \<open>
  C8. \<^verbatim>\<open>getDecryptedTransaction\<close> is total and raises nothing: it returns the mapping's
  entry. In every state reached from the deployed contract, an identifier that no
  submission has been assigned reads as the all-empty projection with
  \<open>isSettled = False\<close>, which is also what a fresh submission leaves under its
  identifier.
\<close>

theorem projection_total_default:
  "(i \<notin> set (submittedIds (events (run e deployed cs))) \<longrightarrow>
      getDecryptedTransaction (run e deployed cs) i = ([], [], [], [], False))
   \<and> (transactionCount s \<noteq> - 1 \<longrightarrow>
      getDecryptedTransaction (step e s (Submit a b c d now)) (transactionCount s + 1) =
        ([], [], [], [], False))"
proof -
  let ?s = "run e deployed cs"
  have c: "consistent ?s" by (rule consistent_reached)
  have 1: "i \<notin> set (submittedIds (events ?s)) \<longrightarrow>
      getDecryptedTransaction ?s i = ([], [], [], [], False)"
  proof
    assume "i \<notin> set (submittedIds (events ?s))"
    with c have "i = 0 \<or> transactionCount ?s < i"
      by (auto simp: consistent_def)
    with c have "decryptedTransactions ?s i = zero_DecryptedTransaction"
      by (auto simp: consistent_def)
    then show "getDecryptedTransaction ?s i = ([], [], [], [], False)"
      by (simp add: getDecryptedTransaction_def zero_DecryptedTransaction_def)
  qed
  have 2: "transactionCount s \<noteq> - 1 \<longrightarrow>
      getDecryptedTransaction (step e s (Submit a b c d now)) (transactionCount s + 1) =
        ([], [], [], [], False)"
    by (simp add: step_def submit_succeeds getDecryptedTransaction_def zero_DecryptedTransaction_def)
  from 1 2 show ?thesis by blast
qed

theorem projection_total_default_witness:
  "5 \<notin> set (submittedIds (events (run (accepting trade) deployed
        [Submit (Handle 1) (Handle 2) (Handle 10) (Handle 500) 1000, Request 1])))
   \<and> getDecryptedTransaction (run (accepting trade) deployed
        [Submit (Handle 1) (Handle 2) (Handle 10) (Handle 500) 1000, Request 1]) 5 =
       ([], [], [], [], False)
   \<and> transactionCount deployed \<noteq> - 1
   \<and> getDecryptedTransaction
        (step (accepting trade) deployed
           (Submit (Handle 1) (Handle 2) (Handle 10) (Handle 500) 1000))
        (transactionCount deployed + 1) = ([], [], [], [], False)"
proof -
  have nm: "transactionCount deployed \<noteq> - 1"
    by (simp add: deployed_def)
  show ?thesis
    using nm projection_total_default [of 5 "accepting trade"
        "[Submit (Handle 1) (Handle 2) (Handle 10) (Handle 500) 1000, Request 1]"
        deployed "Handle 1" "Handle 2" "Handle 10" "Handle 500" 1000]
    by (simp add: scenario_runs requested1_events del: run.simps)
qed

subsection \<open>Replayed tokens\<close>

lemma pending_kept_step:
  assumes "consistent s" and "requestToTransactionId s r \<noteq> 0"
  shows "requestToTransactionId (step e s c) r = requestToTransactionId s r"
proof (cases c)
  case (Submit a b c' d now)
  then show ?thesis
    by (cases "transactionCount s = - 1") (simp_all add: step_def submit_overflow submit_succeeds)
next
  case (Request t)
  show ?thesis
  proof (cases "requestTransactionDecryption e s t")
    case (Inl err)
    then show ?thesis by (simp add: Request step_def)
  next
    case (Inr s')
    from assms have "r < counterRequest s" by (simp add: consistent_def)
    then have "r \<noteq> counterRequest s" by simp
    with request_Inr_fields(7) [OF Inr] show ?thesis
      by (simp add: Request step_def Inr)
  qed
next
  case (Callback r' ct p)
  then show ?thesis
    by (cases "decryptTransaction e s r' ct p")
      (simp_all add: step_def decryptTransaction_Inr_fields(2))
qed

lemma pending_kept_run:
  "consistent s \<Longrightarrow> requestToTransactionId s r \<noteq> 0 \<Longrightarrow>
   requestToTransactionId (run e s cs) r = requestToTransactionId s r"
proof (induction cs arbitrary: s)
  case Nil
  then show ?case by simp
next
  case (Cons c cs)
  from pending_kept_step [OF Cons.prems, of e c]
  have k: "requestToTransactionId (step e s c) r = requestToTransactionId s r" .
  with Cons.prems(2) have "requestToTransactionId (step e s c) r \<noteq> 0" by simp
  from Cons.IH [OF consistent_step [OF Cons.prems(1)] this] k show ?case by simp
qed

text \<open>
  C9. In every state reached from the deployed contract, a successful callback leaves
  \<^verbatim>\<open>requestToTransactionId\<close> as it was, the entry of its own token included, and the
  entry stays through every later sequence of calls. So the same token presented again,
  at once or at any later time and with any payload and proof, is rejected at the
  settled-flag check with \<open>AlreadySettled\<close>, never with \<open>InvalidRequest\<close>.
\<close>

theorem replay_after_success:
  assumes "decryptTransaction e1 (run e deployed cs) requestId cleartexts prf = Inr s'"
  shows "requestToTransactionId s' = requestToTransactionId (run e deployed cs)
       \<and> requestToTransactionId (run e2 s' cs') requestId =
           requestToTransactionId (run e deployed cs) requestId
       \<and> decryptTransaction e3 (run e2 s' cs') requestId cleartexts' prf' = Inl AlreadySettled"
proof -
  let ?s = "run e deployed cs"
  let ?i = "requestToTransactionId ?s requestId"
  have c: "consistent ?s" by (rule consistent_reached)
  from consistent_callback [OF c assms] have c': "consistent s'" .
  from decryptTransaction_Inr_fields [OF assms]
  have nz: "?i \<noteq> 0" and set1: "isSettled (decryptedTransactions s' ?i)"
    and same: "requestToTransactionId s' = requestToTransactionId ?s"
    by simp_all
  from nz same have nz': "requestToTransactionId s' requestId \<noteq> 0" by simp
  have kept: "requestToTransactionId (run e2 s' cs') requestId = ?i"
    using pending_kept_run [OF c' nz', of e2 cs'] same by simp
  from settled_assigned [OF c' set1] have "?i \<le> transactionCount s'" by simp
  from settled_frozen_run [OF this set1, of e2 cs'] set1
  have "isSettled (decryptedTransactions (run e2 s' cs') ?i)" by simp
  with kept nz have "decryptTransaction e3 (run e2 s' cs') requestId cleartexts' prf' = Inl AlreadySettled"
    by (simp add: callback_on_settled)
  with same kept show ?thesis by blast
qed

theorem replay_after_success_witness:
  "decryptTransaction (accepting trade)
     (run (accepting trade) deployed
        [Submit (Handle 1) (Handle 2) (Handle 10) (Handle 500) 1000, Request 1]) 0 [] [] =
     Inr settled1
   \<and> requestToTransactionId settled1 = requestToTransactionId requested1
   \<and> requestToTransactionId
        (run (accepting trade) settled1
           [Submit (Handle 3) (Handle 4) (Handle 20) (Handle 700) 1001, Request 2]) 0 = 1
   \<and> decryptTransaction (accepting trade)
        (run (accepting trade) settled1
           [Submit (Handle 3) (Handle 4) (Handle 20) (Handle 700) 1001, Request 2]) 0 [] [] =
       Inl AlreadySettled"
proof -
  have h: "decryptTransaction (accepting trade)
     (run (accepting trade) deployed
        [Submit (Handle 1) (Handle 2) (Handle 10) (Handle 500) 1000, Request 1]) 0 [] [] =
     Inr settled1"
    by (simp only: scenario_runs settled1_eq)
  show ?thesis
    using h replay_after_success [OF h, of "accepting trade"
        "[Submit (Handle 3) (Handle 4) (Handle 20) (Handle 700) 1001, Request 2]"
        "accepting trade" "[]" "[]"]
    by (simp add: scenario_runs requested1_pending del: run.simps)
qed

subsection \<open>The values of the pending requests\<close>

lemma issued_tracked:
  "consistent s \<Longrightarrow> tracked s m \<Longrightarrow> tracked (run e s cs) (issued e s m cs)"
proof (induction cs arbitrary: s m)
  case Nil
  then show ?case by simp
next
  case (Cons c cs)
  note cs' = consistent_step [OF Cons.prems(1), of e c]
  show ?case
  proof (cases c)
    case (Submit a b c' d now)
    have "tracked (step e s c) m"
      using Cons.prems(2)
      by (cases "transactionCount s = - 1")
        (simp_all add: Submit step_def submit_overflow submit_succeeds tracked_def)
    from Cons.IH [OF cs' this] show ?thesis by (simp add: Submit)
  next
    case (Request t)
    have "tracked (step e s c)
       (case requestTransactionDecryption e s t of Inl err \<Rightarrow> m
        | Inr s' \<Rightarrow> m(counterRequest s := Some t))"
    proof (cases "requestTransactionDecryption e s t")
      case (Inl err)
      with Cons.prems(2) show ?thesis by (simp add: Request step_def)
    next
      case (Inr s')
      from consistent_request(2) [OF Cons.prems(1) Inr] have "t \<noteq> 0" .
      with Cons.prems(2) request_Inr_fields(7) [OF Inr] show ?thesis
        by (auto simp: Request step_def Inr tracked_def split: option.splits)
    qed
    from Cons.IH [OF cs' this] show ?thesis by (simp add: Request)
  next
    case (Callback r ct p)
    have "tracked (step e s c) m"
    proof (cases "decryptTransaction e s r ct p")
      case (Inl err)
      with Cons.prems(2) show ?thesis by (simp add: Callback step_def)
    next
      case (Inr s')
      with Cons.prems(2) decryptTransaction_Inr_fields(2) [OF Inr] show ?thesis
        by (simp add: Callback step_def tracked_def)
    qed
    from Cons.IH [OF cs' this] show ?thesis by (simp add: Callback)
  qed
qed

lemma issued_scenario:
  "issued (accepting trade) deployed (\<lambda>_. None)
     [Submit (Handle 1) (Handle 2) (Handle 10) (Handle 500) 1000, Request 1] =
   (\<lambda>_. None)(0 := Some 1)"
  by (simp add: scenario_steps requested1_request submitted1_fields)

text \<open>
  C10. In every state reached from the deployed contract, the identifier stored for a
  token that a successful request has handed out is not 0 (it is an assigned identifier,
  and no assigned identifier is 0), and the entry of a token never handed out reads 0. So
  the \<open>InvalidRequest\<close> check of the callback rejects exactly the tokens that were never
  handed out.
\<close>

theorem pending_values_nonzero:
  "(\<forall>t. issued e deployed (\<lambda>_. None) cs r = Some t \<longrightarrow>
        t \<noteq> 0 \<and> t \<le> transactionCount (run e deployed cs)
        \<and> requestToTransactionId (run e deployed cs) r = t
        \<and> decryptTransaction e' (run e deployed cs) r ct p \<noteq> Inl InvalidRequest)
   \<and> (issued e deployed (\<lambda>_. None) cs r = None \<longrightarrow>
        requestToTransactionId (run e deployed cs) r = 0
        \<and> decryptTransaction e' (run e deployed cs) r ct p = Inl InvalidRequest)
   \<and> 0 \<notin> set (submittedIds (events (run e deployed cs)))"
proof -
  let ?s = "run e deployed cs"
  have c: "consistent ?s" by (rule consistent_reached)
  have "tracked deployed (\<lambda>_. None)"
    by (simp add: tracked_def deployed_def)
  from issued_tracked [OF consistent_deployed this, of e cs]
  have t: "tracked ?s (issued e deployed (\<lambda>_. None) cs)" .
  from c have le: "requestToTransactionId ?s r \<le> transactionCount ?s"
    by (simp add: consistent_def)
  have 1: "\<forall>t. issued e deployed (\<lambda>_. None) cs r = Some t \<longrightarrow>
        t \<noteq> 0 \<and> t \<le> transactionCount ?s
        \<and> requestToTransactionId ?s r = t
        \<and> decryptTransaction e' ?s r ct p \<noteq> Inl InvalidRequest"
  proof (intro allI impI)
    fix t assume "issued e deployed (\<lambda>_. None) cs r = Some t"
    with t have "requestToTransactionId ?s r = t" and "t \<noteq> 0"
      by (auto simp: tracked_def)
    with le show "t \<noteq> 0 \<and> t \<le> transactionCount ?s
        \<and> requestToTransactionId ?s r = t
        \<and> decryptTransaction e' ?s r ct p \<noteq> Inl InvalidRequest"
      by (auto simp: decryptTransaction_def Let_def split: option.splits)
  qed
  have 2: "issued e deployed (\<lambda>_. None) cs r = None \<longrightarrow>
        requestToTransactionId ?s r = 0
        \<and> decryptTransaction e' ?s r ct p = Inl InvalidRequest"
  proof
    assume "issued e deployed (\<lambda>_. None) cs r = None"
    with t have "requestToTransactionId ?s r = 0"
      by (simp add: tracked_def)
    then show "requestToTransactionId ?s r = 0
        \<and> decryptTransaction e' ?s r ct p = Inl InvalidRequest"
      by (simp add: decryptTransaction_def)
  qed
  from c have 3: "0 \<notin> set (submittedIds (events ?s))"
    by (simp add: consistent_def)
  from 1 2 3 show ?thesis by blast
qed

theorem pending_values_nonzero_witness:
  "issued (accepting trade) deployed (\<lambda>_. None)
     [Submit (Handle 1) (Handle 2) (Handle 10) (Handle 500) 1000, Request 1] 0 = Some 1
   \<and> requestToTransactionId requested1 0 = 1
   \<and> decryptTransaction rejecting requested1 0 [] [] \<noteq> Inl InvalidRequest
   \<and> issued (accepting trade) deployed (\<lambda>_. None)
     [Submit (Handle 1) (Handle 2) (Handle 10) (Handle 500) 1000, Request 1] 7 = None
   \<and> requestToTransactionId requested1 7 = 0
   \<and> decryptTransaction rejecting requested1 7 [] [] = Inl InvalidRequest"
  using pending_values_nonzero [of "accepting trade"
      "[Submit (Handle 1) (Handle 2) (Handle 10) (Handle 500) 1000, Request 1]" 0 rejecting "[]" "[]"]
    pending_values_nonzero [of "accepting trade"
      "[Submit (Handle 1) (Handle 2) (Handle 10) (Handle 500) 1000, Request 1]" 7 rejecting "[]" "[]"]
  by (simp add: issued_scenario scenario_runs del: run.simps issued.simps)

end
